theory Spec2Isabelle
  imports Main
begin

section \<open>Presentation metadata and the step planner (core.py)\<close>

text \<open>
  The page script of \<open>_analyze_presentation\<close> returns one of three shapes: a Sozi
  presentation with its viewport and the list of frame identifiers, a JessyInk presentation
  with its viewport and the list of per-slide effect counts (each the length of a
  JavaScript array, hence a natural number), or the bare marker \<open>unknown\<close>. The three
  shapes are the three constructors; the test \<open>info["type"] == ...\<close> is the case
  distinction on them.
\<close>

datatype info = Sozi int int "string list" | JessyInk int int "nat list" | Unknown

text \<open>Python's \<open>str\<close> on a non-negative integer: its decimal digits.\<close>

definition digit :: "nat \<Rightarrow> char" where
  "digit d = ''0123456789'' ! d"

function str_nat :: "nat \<Rightarrow> string" where
  "str_nat n = (if n < 10 then [digit n] else str_nat (n div 10) @ [digit (n mod 10)])"
  by pat_completeness auto
termination
  by (relation "measure (\<lambda>n. n)") auto

declare str_nat.simps [simp del]

text \<open>The f-string \<open>#{slide_idx + 1}_{effect_step}\<close>.\<close>

definition jessyink_hash :: "nat \<Rightarrow> nat \<Rightarrow> string" where
  "jessyink_hash slide_idx effect_step =
     ''#'' @ str_nat (slide_idx + 1) @ ''_'' @ str_nat effect_step"

text \<open>
  The inner loop \<open>for effect_step in range(effect_count + 1): steps.append(...)\<close> and
  the outer loop over \<open>enumerate(info["data"])\<close>, each threading the list \<open>steps\<close>
  that the source appends to.
\<close>

fun effect_loop :: "nat \<Rightarrow> nat list \<Rightarrow> string list \<Rightarrow> string list" where
  "effect_loop slide_idx [] steps = steps"
| "effect_loop slide_idx (effect_step # rest) steps =
     effect_loop slide_idx rest (steps @ [jessyink_hash slide_idx effect_step])"

fun slide_loop :: "(nat \<times> nat) list \<Rightarrow> string list \<Rightarrow> string list" where
  "slide_loop [] steps = steps"
| "slide_loop ((slide_idx, effect_count) # rest) steps =
     slide_loop rest (effect_loop slide_idx [0..<effect_count + 1] steps)"

fun generate_steps :: "info \<Rightarrow> string list" where
  "generate_steps (Sozi width height frames) = map (\<lambda>frame_id. ''#'' @ frame_id) frames"
| "generate_steps (JessyInk width height counts) = slide_loop (enumerate 0 counts) []"
| "generate_steps Unknown = []"


section \<open>The conversion job (core.py, convert_presentation)\<close>

text \<open>
  Exceptions are values. \<open>ValueError\<close> is the one raised for an unsupported presentation,
  \<open>RuntimeError\<close> the one raised when no image was produced; \<open>Failure\<close> stands for any
  other subclass of \<open>Exception\<close> raised by an external call (browser, file system,
  PDF library); \<open>KeyboardInterrupt\<close> is not a subclass of \<open>Exception\<close>.
\<close>

datatype exc = ValueError | RuntimeError | Failure string | KeyboardInterrupt


text \<open>The three messages handed to the progress callback.\<close>

datatype message = Cargando | Capturando nat nat | GenerandoPDF

type_synonym bytes = "nat list"

text \<open>
  Every call that leaves the function is an action: the Playwright context manager, the
  browser, the page, the progress callback, the temporary directory, the output file and
  the PDF library. \<open>Sleep\<close> is \<open>asyncio.sleep(TRANSITION_DELAY)\<close>.
\<close>

datatype action =
    PlaywrightStart | ChromiumLaunch | NewContext int | NewPage
  | Progress nat nat message
  | Goto string | WaitForLoadState | Evaluate | AddStyleTag | SetViewportSize int int
  | Reload | Sleep | Screenshot string
  | MkTempDir | RmTempDir
  | OpenOutput string | Img2pdfConvert "string list" | WriteOutput bytes | CloseOutput
  | BrowserClose | PlaywrightStop

text \<open>
  The world outside the function: the actions attempted so far (oldest first), the
  contents of the file at \<open>output_path\<close> (\<open>None\<close> when there is no such file), and
  whether the browser and the Playwright driver are running.
\<close>

record world =
  trace :: "action list"
  output_file :: "bytes option"
  browser_open :: bool
  playwright_running :: bool

text \<open>
  What the function cannot decide: which action raises (\<open>raises k\<close> is asked for the
  action attempted after \<open>k\<close> earlier ones), what the page script returns, the name of the
  temporary directory, the bytes the PDF library produces and how many bytes a failing
  write leaves behind.
\<close>

record env =
  raises :: "nat \<Rightarrow> exc option"
  analysis :: info
  tmp_dir :: string
  pdf_bytes :: "string list \<Rightarrow> bytes"
  short_write :: nat

type_synonym 'a prog = "world \<Rightarrow> (exc + 'a) \<times> world"

text \<open>
  The effect of an action that returns. Opening with mode \<open>wb\<close> creates or truncates the
  file; a write appends to what is there; closing the browser ends it; stopping the driver
  ends the driver and the browsers it launched.
\<close>

fun effect :: "action \<Rightarrow> world \<Rightarrow> world" where
  "effect PlaywrightStart w = w\<lparr>playwright_running := True\<rparr>"
| "effect ChromiumLaunch w = w\<lparr>browser_open := True\<rparr>"
| "effect BrowserClose w = w\<lparr>browser_open := False\<rparr>"
| "effect PlaywrightStop w = w\<lparr>browser_open := False, playwright_running := False\<rparr>"
| "effect (OpenOutput output_path) w = w\<lparr>output_file := Some []\<rparr>"
| "effect (WriteOutput b) w =
     w\<lparr>output_file := Some (case output_file w of None \<Rightarrow> b | Some c \<Rightarrow> c @ b)\<rparr>"
| "effect _ w = w"

text \<open>The effect of an action that raises: only a write leaves something behind.\<close>

fun failed_effect :: "env \<Rightarrow> action \<Rightarrow> world \<Rightarrow> world" where
  "failed_effect E (WriteOutput b) w = effect (WriteOutput (take (short_write E) b)) w"
| "failed_effect E _ w = w"

definition perform :: "env \<Rightarrow> action \<Rightarrow> unit prog" where
  "perform E a w =
     (case raises E (length (trace w)) of
        None \<Rightarrow> (Inr (), effect a (w\<lparr>trace := trace w @ [a]\<rparr>))
      | Some e \<Rightarrow> (Inl e, failed_effect E a (w\<lparr>trace := trace w @ [a]\<rparr>)))"

definition return :: "'a \<Rightarrow> 'a prog" where
  "return x w = (Inr x, w)"

definition raise :: "exc \<Rightarrow> 'a prog" where
  "raise e w = (Inl e, w)"

text \<open>Sequencing: an exception of the first part skips the second.\<close>

definition seq :: "'a prog \<Rightarrow> ('a \<Rightarrow> 'b prog) \<Rightarrow> 'b prog" where
  "seq p f w = (case p w of (Inl e, w') \<Rightarrow> (Inl e, w') | (Inr x, w') \<Rightarrow> f x w')"

text \<open>
  \<open>try: p finally: q\<close>, and the exit of a \<open>with\<close> block: \<open>q\<close> runs on both paths, and
  an exception of \<open>q\<close> replaces the outcome of \<open>p\<close>.
\<close>

definition try_finally :: "'a prog \<Rightarrow> unit prog \<Rightarrow> 'a prog" where
  "try_finally p q w =
     (case p w of (r, w') \<Rightarrow>
        (case q w' of (Inl e, w'') \<Rightarrow> (Inl e, w'') | (Inr u, w'') \<Rightarrow> (r, w'')))"

text \<open>\<open>if progress_callback: progress_callback(current, total, message)\<close>.\<close>

definition report :: "env \<Rightarrow> bool \<Rightarrow> nat \<Rightarrow> nat \<Rightarrow> message \<Rightarrow> unit prog" where
  "report E progress_callback current total_steps m =
     (if progress_callback then perform E (Progress current total_steps m) else return ())"

definition analyze_presentation :: "env \<Rightarrow> info prog" where
  "analyze_presentation E = seq (perform E Evaluate) (\<lambda>u. return (analysis E))"

text \<open>The format \<open>{current:04d}\<close> and the image path in the temporary directory.\<close>

definition pad4 :: "nat \<Rightarrow> string" where
  "pad4 n = replicate (4 - length (str_nat n)) (CHR ''0'') @ str_nat n"

definition img_path :: "env \<Rightarrow> nat \<Rightarrow> string" where
  "img_path E current = tmp_dir E @ ''/'' @ pad4 current @ ''.png''"

text \<open>One iteration of the capture loop, and the loop over \<open>enumerate(steps)\<close>.\<close>

definition capture_step :: "env \<Rightarrow> string \<Rightarrow> bool \<Rightarrow> nat \<Rightarrow> nat \<Rightarrow> string \<Rightarrow> string prog" where
  "capture_step E file_url progress_callback total_steps idx step_hash =
     (let current = idx + 1 in
      seq (report E progress_callback current total_steps (Capturando current total_steps)) (\<lambda>u.
      seq (perform E (Goto (file_url @ step_hash))) (\<lambda>u.
      seq (perform E Reload) (\<lambda>u.
      seq (perform E Sleep) (\<lambda>u.
      let img = img_path E current in
      seq (perform E (Screenshot img)) (\<lambda>u.
      return img))))))"

fun capture_loop :: "env \<Rightarrow> string \<Rightarrow> bool \<Rightarrow> nat \<Rightarrow> (nat \<times> string) list \<Rightarrow> string list
    \<Rightarrow> string list prog" where
  "capture_loop E file_url progress_callback total_steps [] image_files = return image_files"
| "capture_loop E file_url progress_callback total_steps ((idx, step_hash) # rest) image_files =
     seq (capture_step E file_url progress_callback total_steps idx step_hash) (\<lambda>img.
       capture_loop E file_url progress_callback total_steps rest (image_files @ [img]))"

text \<open>
  \<open>with open(output_path, "wb") as f: f.write(img2pdf.convert(...))\<close>: the file is opened
  first, then the argument of \<open>write\<close> is evaluated, then written; the file is closed on
  both paths.
\<close>

definition write_pdf :: "env \<Rightarrow> string \<Rightarrow> string list \<Rightarrow> unit prog" where
  "write_pdf E output_path image_files =
     seq (perform E (OpenOutput output_path)) (\<lambda>u.
       try_finally
         (seq (perform E (Img2pdfConvert image_files)) (\<lambda>u.
            perform E (WriteOutput (pdf_bytes E image_files))))
         (perform E CloseOutput))"

text \<open>The block under \<open>with tempfile.TemporaryDirectory() as tmp_dir\<close>.\<close>

definition capture_and_assemble :: "env \<Rightarrow> string \<Rightarrow> string \<Rightarrow> bool \<Rightarrow> string list \<Rightarrow> unit prog" where
  "capture_and_assemble E file_url output_path progress_callback steps =
     (let total_steps = length steps in
      seq (perform E MkTempDir) (\<lambda>u.
        try_finally
          (seq (capture_loop E file_url progress_callback total_steps (enumerate 0 steps) [])
             (\<lambda>image_files.
           seq (report E progress_callback total_steps total_steps GenerandoPDF) (\<lambda>u.
           if image_files = [] then raise RuntimeError
           else write_pdf E output_path image_files)))
          (perform E RmTempDir)))"

text \<open>The body of the \<open>try\<close>.\<close>

definition try_block :: "env \<Rightarrow> string \<Rightarrow> string \<Rightarrow> bool \<Rightarrow> unit prog" where
  "try_block E file_url output_path progress_callback =
     seq (report E progress_callback 0 0 Cargando) (\<lambda>u.
     seq (perform E (Goto file_url)) (\<lambda>u.
     seq (perform E WaitForLoadState) (\<lambda>u.
     seq (analyze_presentation E) (\<lambda>info.
       case info of
         Unknown \<Rightarrow> raise ValueError
       | Sozi width height frames \<Rightarrow>
           seq (perform E AddStyleTag) (\<lambda>u.
           seq (perform E (SetViewportSize width height)) (\<lambda>u.
           capture_and_assemble E file_url output_path progress_callback (generate_steps info)))
       | JessyInk width height counts \<Rightarrow>
           seq (perform E (SetViewportSize width height)) (\<lambda>u.
           capture_and_assemble E file_url output_path progress_callback (generate_steps info))))))"

text \<open>
  The whole function. \<open>file_url\<close> is \<open>file_path.absolute().as_uri()\<close>. The browser, the
  context and the page are created before the \<open>try\<close>, inside the
  \<open>async with async_playwright()\<close> block; \<open>progress_callback\<close> tells whether a callback
  was passed.
\<close>

definition convert_presentation :: "env \<Rightarrow> string \<Rightarrow> string \<Rightarrow> int \<Rightarrow> bool \<Rightarrow> unit prog" where
  "convert_presentation E file_url output_path quality progress_callback =
     seq (perform E PlaywrightStart) (\<lambda>u.
       try_finally
         (seq (perform E ChromiumLaunch) (\<lambda>u.
          seq (perform E (NewContext quality)) (\<lambda>u.
          seq (perform E NewPage) (\<lambda>u.
            try_finally
              (try_block E file_url output_path progress_callback)
              (perform E BrowserClose)))))
         (perform E PlaywrightStop))"


section \<open>The batch command line (cli.py)\<close>













section \<open>Vocabulary of the statements\<close>

text \<open>The actions a run added to the trace.\<close>

definition new_actions :: "world \<Rightarrow> world \<Rightarrow> action list" where
  "new_actions w w' = drop (length (trace w)) (trace w')"

text \<open>The actions of one loop iteration when nothing raises, in the order of the source.\<close>

definition step_actions :: "env \<Rightarrow> string \<Rightarrow> bool \<Rightarrow> nat \<Rightarrow> nat \<times> string \<Rightarrow> action list" where
  "step_actions E file_url progress_callback n =
     (\<lambda>(idx, step_hash).
        (if progress_callback then [Progress (idx + 1) n (Capturando (idx + 1) n)] else [])
        @ [Goto (file_url @ step_hash), Reload, Sleep, Screenshot (img_path E (idx + 1))])"

definition images :: "env \<Rightarrow> string list \<Rightarrow> string list" where
  "images E steps = map (\<lambda>(idx, h). img_path E (idx + 1)) (enumerate 0 steps)"

definition setup_actions :: "info \<Rightarrow> action list" where
  "setup_actions i =
     (case i of Sozi width height frames \<Rightarrow> [AddStyleTag, SetViewportSize width height]
      | JessyInk width height counts \<Rightarrow> [SetViewportSize width height]
      | Unknown \<Rightarrow> [])"

text \<open>What precedes the capture loop, and what follows it, when nothing raises.\<close>

definition prelude :: "env \<Rightarrow> string \<Rightarrow> int \<Rightarrow> bool \<Rightarrow> action list" where
  "prelude E file_url quality progress_callback =
     [PlaywrightStart, ChromiumLaunch, NewContext quality, NewPage]
     @ (if progress_callback then [Progress 0 0 Cargando] else [])
     @ [Goto file_url, WaitForLoadState, Evaluate]
     @ setup_actions (analysis E)
     @ [MkTempDir]"

definition epilogue_inner :: "env \<Rightarrow> string \<Rightarrow> bool \<Rightarrow> string list \<Rightarrow> action list" where
  "epilogue_inner E output_path progress_callback steps =
     (if progress_callback then [Progress (length steps) (length steps) GenerandoPDF] else [])
     @ (if steps = [] then []
        else [OpenOutput output_path, Img2pdfConvert (images E steps),
              WriteOutput (pdf_bytes E (images E steps)), CloseOutput])
     @ [RmTempDir]"

definition epilogue :: "env \<Rightarrow> string \<Rightarrow> bool \<Rightarrow> string list \<Rightarrow> action list" where
  "epilogue E output_path progress_callback steps =
     epilogue_inner E output_path progress_callback steps @ [BrowserClose, PlaywrightStop]"

definition script :: "env \<Rightarrow> string \<Rightarrow> string \<Rightarrow> int \<Rightarrow> bool \<Rightarrow> action list" where
  "script E file_url output_path quality progress_callback =
     (let steps = generate_steps (analysis E) in
      prelude E file_url quality progress_callback
      @ concat (map (step_actions E file_url progress_callback (length steps)) (enumerate 0 steps))
      @ epilogue E output_path progress_callback steps)"

text \<open>The calls of the progress callback, the navigations and the screenshots of a trace.\<close>

fun progress_calls :: "action list \<Rightarrow> (nat \<times> nat \<times> message) list" where
  "progress_calls [] = []"
| "progress_calls (Progress c n m # t) = (c, n, m) # progress_calls t"
| "progress_calls (a # t) = progress_calls t"

fun navigations :: "action list \<Rightarrow> string list" where
  "navigations [] = []"
| "navigations (Goto u # t) = u # navigations t"
| "navigations (a # t) = navigations t"

fun screenshots :: "action list \<Rightarrow> string list" where
  "screenshots [] = []"
| "screenshots (Screenshot p # t) = p # screenshots t"
| "screenshots (a # t) = screenshots t"

text \<open>\<open>precedes a b t\<close>: \<open>a\<close> occurs in \<open>t\<close>, and \<open>b\<close> occurs after its first occurrence.\<close>

fun precedes :: "'a \<Rightarrow> 'a \<Rightarrow> 'a list \<Rightarrow> bool" where
  "precedes a b [] = False"
| "precedes a b (x # xs) = (if x = a then b \<in> set xs else precedes a b xs)"

text \<open>The same environment with no action raising.\<close>

definition no_faults :: "env \<Rightarrow> env" where
  "no_faults E = E\<lparr>raises := (\<lambda>k. None)\<rparr>"

text \<open>
  Two properties of programs, used to reason about runs in which anything may raise:
  \<open>emits A p\<close> says that \<open>p\<close> only appends actions of \<open>A\<close> to the trace and changes the
  output file only by opening it; \<open>succ_stable p p'\<close> says that every run of \<open>p\<close> that
  returns is a run of \<open>p'\<close>.
\<close>

definition emits :: "action set \<Rightarrow> 'a prog \<Rightarrow> bool" where
  "emits A p \<longleftrightarrow>
     (\<forall>w. \<exists>t. trace (snd (p w)) = trace w @ t \<and> set t \<subseteq> A
        \<and> (output_file (snd (p w)) = output_file w \<or> (\<exists>path. OpenOutput path \<in> set t)))"

definition succ_stable :: "'a prog \<Rightarrow> 'a prog \<Rightarrow> bool" where
  "succ_stable p p' \<longleftrightarrow> (\<forall>w x w'. p w = (Inr x, w') \<longrightarrow> p' w = (Inr x, w'))"

fun is_write :: "action \<Rightarrow> bool" where
  "is_write (WriteOutput b) = True"
| "is_write _ = False"

fun is_step_act :: "action \<Rightarrow> bool" where
  "is_step_act (Progress c n m) = True"
| "is_step_act (Goto u) = True"
| "is_step_act Reload = True"
| "is_step_act Sleep = True"
| "is_step_act (Screenshot p) = True"
| "is_step_act _ = False"

fun is_session_act :: "action \<Rightarrow> bool" where
  "is_session_act PlaywrightStart = True"
| "is_session_act ChromiumLaunch = True"
| "is_session_act (NewContext q) = True"
| "is_session_act NewPage = True"
| "is_session_act BrowserClose = True"
| "is_session_act PlaywrightStop = True"
| "is_session_act _ = False"

text \<open>
  \<open>opens_after_capture E steps p\<close> says that \<open>p\<close> only appends to the trace, and that
  when it attempts to open the output file it has taken the screenshots of all the planned
  steps, of which there is at least one. Quiet actions are those that neither open the
  output file nor take a screenshot.
\<close>

fun is_quiet :: "action \<Rightarrow> bool" where
  "is_quiet (OpenOutput path) = False"
| "is_quiet (Screenshot img) = False"
| "is_quiet _ = True"

fun is_screenshot :: "action \<Rightarrow> bool" where
  "is_screenshot (Screenshot img) = True"
| "is_screenshot _ = False"

definition opens_after_capture :: "env \<Rightarrow> string list \<Rightarrow> 'a prog \<Rightarrow> bool" where
  "opens_after_capture E steps p \<longleftrightarrow>
     (\<forall>w. \<exists>t. trace (snd (p w)) = trace w @ t
        \<and> ((\<exists>path. OpenOutput path \<in> set t) \<longrightarrow> screenshots t = images E steps \<and> steps \<noteq> []))"

text \<open>
  Two worlds are the same but for the quality when their traces agree once the argument of
  every \<open>NewContext\<close> is erased and everything else is equal; two programs are
  \<open>quality_blind\<close> when, started in such worlds, they end the same way in such worlds.
\<close>

fun erase_quality :: "action \<Rightarrow> action" where
  "erase_quality (NewContext q) = NewContext 0"
| "erase_quality a = a"

definition same_but_quality :: "world \<Rightarrow> world \<Rightarrow> bool" where
  "same_but_quality w1 w2 \<longleftrightarrow>
     map erase_quality (trace w1) = map erase_quality (trace w2)
     \<and> output_file w1 = output_file w2
     \<and> browser_open w1 = browser_open w2
     \<and> playwright_running w1 = playwright_running w2"

definition quality_blind :: "'a prog \<Rightarrow> 'a prog \<Rightarrow> bool" where
  "quality_blind p1 p2 \<longleftrightarrow>
     (\<forall>w1 w2. same_but_quality w1 w2 \<longrightarrow>
        fst (p1 w1) = fst (p2 w2) \<and> same_but_quality (snd (p1 w1)) (snd (p2 w2)))"

text \<open>Concrete inputs: a world with nothing in it and an environment in which nothing raises.\<close>

definition w_init :: world where
  "w_init = \<lparr>trace = [], output_file = None, browser_open = False, playwright_running = False\<rparr>"

definition demo_env :: "info \<Rightarrow> env" where
  "demo_env i = \<lparr>raises = (\<lambda>k. None), analysis = i, tmp_dir = ''/tmp/x'',
     pdf_bytes = (\<lambda>ps. [37, 80, 68, 70] @ map length ps), short_write = 2\<rparr>"


text \<open>An environment in which the PDF library raises: the nineteenth action of the run.\<close>

definition faulty_env :: env where
  "faulty_env = (demo_env (Sozi 1024 768 [''intro'']))
     \<lparr>raises := (\<lambda>k. if k = 18 then Some (Failure ''img2pdf'') else None)\<rparr>"

text \<open>An environment in which the navigation to the first step raises: the thirteenth action.\<close>

definition capture_fail_env :: env where
  "capture_fail_env = (demo_env (Sozi 1024 768 [''intro'']))
     \<lparr>raises := (\<lambda>k. if k = 12 then Some (Failure ''goto'') else None)\<rparr>"

text \<open>
  The order read literally from the specification: the report for step \<open>c\<close> comes after the
  screenshot of step \<open>c\<close>.
\<close>

definition reports_after_work :: "env \<Rightarrow> nat \<Rightarrow> action list \<Rightarrow> bool" where
  "reports_after_work E n t =
     list_all (\<lambda>c. precedes (Screenshot (img_path E c)) (Progress c n (Capturando c n)) t)
       [1..<n + 1]"






section \<open>The planner\<close>

lemma effect_loop_eq:
  "effect_loop slide_idx js steps = steps @ map (jessyink_hash slide_idx) js"
  by (induction js arbitrary: steps) simp_all

lemma slide_loop_eq:
  "slide_loop ps steps =
     steps @ concat (map (\<lambda>(i, e). map (jessyink_hash i) [0..<e + 1]) ps)"
  by (induction ps arbitrary: steps) (auto simp: effect_loop_eq)

lemma enumerate_zip_Suc:
  "map (\<lambda>(i, e). f (Suc i) e) (enumerate n es) =
   map (\<lambda>(s, e). f s e) (zip [Suc n..<Suc n + length es] es)"
  by (induction es arbitrary: n) (simp_all add: upt_rec [of "Suc n" for n] del: upt.simps)

lemma plan_length:
  "length (concat (map (\<lambda>(i, e). map (f i) [0..<e + 1]) (enumerate n es))) =
   sum_list es + length es"
  by (induction es arbitrary: n) simp_all

lemma slide_loop_Nil: "slide_loop (enumerate 0 counts) [] = [] \<Longrightarrow> counts = []"
proof -
  assume a: "slide_loop (enumerate 0 counts) [] = []"
  have "length (slide_loop (enumerate 0 counts) []) = sum_list counts + length counts"
    by (simp only: slide_loop_eq append_Nil plan_length)
  with a show ?thesis by simp
qed

text \<open>
  C1. For JessyInk metadata with effect counts \<open>es\<close> the planner returns, for the slides
  \<open>s = 1, 2, ...\<close> in ascending order, the addresses of \<open>(s, 0), (s, 1), ..., (s, e)\<close> in
  that order, where \<open>e\<close> is the effect count of slide \<open>s\<close>; the address of \<open>(s, j)\<close> is
  the fragment \<open>#s_j\<close>. The number of steps is the sum of the counts plus the number of
  slides.
\<close>

theorem jessyink_plan:
  "generate_steps (JessyInk w h es) =
     concat (map (\<lambda>(s, e). map (\<lambda>j. ''#'' @ str_nat s @ ''_'' @ str_nat j) [0..<e + 1])
                 (zip [1..<length es + 1] es))
   \<and> length (generate_steps (JessyInk w h es)) = sum_list es + length es"
proof -
  let ?g = "\<lambda>s e. map (\<lambda>j. ''#'' @ str_nat s @ ''_'' @ str_nat j) [0..<e + 1]"
  have "(\<lambda>(i, e). map (jessyink_hash i) [0..<e + 1]) = (\<lambda>(i, e). ?g (Suc i) e)"
    by (simp add: jessyink_hash_def fun_eq_iff)
  then have "generate_steps (JessyInk w h es) =
      concat (map (\<lambda>(i, e). ?g (Suc i) e) (enumerate 0 es))"
    by (simp add: slide_loop_eq)
  also have "\<dots> = concat (map (\<lambda>(s, e). ?g s e) (zip [1..<length es + 1] es))"
    using enumerate_zip_Suc [of ?g 0 es] by simp
  finally have shape: "generate_steps (JessyInk w h es) =
      concat (map (\<lambda>(s, e). ?g s e) (zip [1..<length es + 1] es))" .
  have "length (generate_steps (JessyInk w h es)) = sum_list es + length es"
    by (simp only: generate_steps.simps slide_loop_eq append_Nil plan_length)
  with shape show ?thesis by simp
qed

text \<open>Scenario B of the specification: effect counts \<open>[0, 2]\<close> give four steps.\<close>

theorem jessyink_plan_witness:
  "generate_steps (JessyInk 1024 768 [0, 2]) = [''#1_0'', ''#2_0'', ''#2_1'', ''#2_2'']
   \<and> length (generate_steps (JessyInk 1024 768 [0, 2])) = 4"
  using jessyink_plan [of 1024 768 "[0, 2]"]
  by (simp add: upt_rec str_nat.simps digit_def)

text \<open>
  C2. For Sozi metadata with \<open>n\<close> frame identifiers the planner returns \<open>n\<close> steps, and
  the step at each position is the fragment \<open>#\<close> followed by the identifier at that
  position.
\<close>

theorem sozi_plan:
  "length (generate_steps (Sozi w h ids)) = length ids
   \<and> (\<forall>i < length ids. generate_steps (Sozi w h ids) ! i = ''#'' @ ids ! i)"
  by simp

text \<open>Scenario A of the specification.\<close>

theorem sozi_plan_witness:
  "length (generate_steps (Sozi 1024 768 [''intro'', ''body'', ''end''])) = 3
   \<and> generate_steps (Sozi 1024 768 [''intro'', ''body'', ''end'']) ! 1 = ''#body''"
  using sozi_plan [of 1024 768 "[''intro'', ''body'', ''end'']"] by simp


section \<open>The conversion job\<close>

subsection \<open>Actions and the trace\<close>

lemma perform_trace: "trace (snd (perform E a w)) = trace w @ [a]"
  by (cases a) (simp_all add: perform_def split: option.splits)

lemma perform_output:
  "\<not> is_write a \<Longrightarrow> (\<forall>path. a \<noteq> OpenOutput path)
     \<Longrightarrow> output_file (snd (perform E a w)) = output_file w"
  by (cases a) (simp_all add: perform_def split: option.splits)

lemma perform_ok:
  "raises E = (\<lambda>k. None) \<Longrightarrow> perform E a w = (Inr (), effect a (w\<lparr>trace := trace w @ [a]\<rparr>))"
  by (simp add: perform_def)

lemma emits_perform: "a \<in> A \<Longrightarrow> \<not> is_write a \<Longrightarrow> emits A (perform E a)"
  unfolding emits_def
proof (intro allI)
  fix w
  assume a: "a \<in> A" "\<not> is_write a"
  show "\<exists>t. trace (snd (perform E a w)) = trace w @ t \<and> set t \<subseteq> A
        \<and> (output_file (snd (perform E a w)) = output_file w \<or> (\<exists>path. OpenOutput path \<in> set t))"
    using a perform_output [of a E w] by (intro exI [of _ "[a]"]) (auto simp: perform_trace)
qed

lemma emits_return: "emits A (return x)"
  by (simp add: emits_def return_def)

lemma emits_raise: "emits A (raise e)"
  by (simp add: emits_def raise_def)

lemma emits_seq:
  assumes "emits A p" and "\<And>x. emits A (f x)"
  shows "emits A (seq p f)"
  unfolding emits_def
proof (intro allI)
  fix w
  obtain r w1 where pw: "p w = (r, w1)" by (cases "p w")
  from assms(1) obtain t1 where t1: "trace w1 = trace w @ t1" "set t1 \<subseteq> A"
     "output_file w1 = output_file w \<or> (\<exists>path. OpenOutput path \<in> set t1)"
    unfolding emits_def using pw by (metis snd_conv)
  show "\<exists>t. trace (snd (seq p f w)) = trace w @ t \<and> set t \<subseteq> A
        \<and> (output_file (snd (seq p f w)) = output_file w \<or> (\<exists>path. OpenOutput path \<in> set t))"
  proof (cases r)
    case (Inl e)
    then show ?thesis using pw t1 by (intro exI [of _ t1]) (simp add: seq_def)
  next
    case (Inr x)
    from assms(2) [of x] obtain t2 where t2: "trace (snd (f x w1)) = trace w1 @ t2" "set t2 \<subseteq> A"
      "output_file (snd (f x w1)) = output_file w1 \<or> (\<exists>path. OpenOutput path \<in> set t2)"
      unfolding emits_def by blast
    then show ?thesis using pw t1 Inr by (intro exI [of _ "t1 @ t2"]) (auto simp: seq_def)
  qed
qed

lemma emits_try_finally:
  assumes "emits A p" and "emits A q"
  shows "emits A (try_finally p q)"
  unfolding emits_def
proof (intro allI)
  fix w
  obtain r w1 where pw: "p w = (r, w1)" by (cases "p w")
  obtain r2 w2 where qw: "q w1 = (r2, w2)" by (cases "q w1")
  from assms(1) obtain t1 where t1: "trace w1 = trace w @ t1" "set t1 \<subseteq> A"
     "output_file w1 = output_file w \<or> (\<exists>path. OpenOutput path \<in> set t1)"
    unfolding emits_def using pw by (metis snd_conv)
  from assms(2) obtain t2 where t2: "trace w2 = trace w1 @ t2" "set t2 \<subseteq> A"
     "output_file w2 = output_file w1 \<or> (\<exists>path. OpenOutput path \<in> set t2)"
    unfolding emits_def using qw by (metis snd_conv)
  have "snd (try_finally p q w) = w2"
    using pw qw by (simp add: try_finally_def split: sum.splits)
  then show "\<exists>t. trace (snd (try_finally p q w)) = trace w @ t \<and> set t \<subseteq> A
        \<and> (output_file (snd (try_finally p q w)) = output_file w \<or> (\<exists>path. OpenOutput path \<in> set t))"
    using t1 t2 by (intro exI [of _ "t1 @ t2"]) auto
qed

lemma emits_mono: "emits A p \<Longrightarrow> A \<subseteq> B \<Longrightarrow> emits B p"
  unfolding emits_def by (meson subset_trans)

lemma emits_report: "Progress c n m \<in> A \<Longrightarrow> emits A (report E cb c n m)"
  by (simp add: report_def emits_perform emits_return)

lemma emits_capture_step: "emits (Collect is_step_act) (capture_step E url cb n idx h)"
  unfolding capture_step_def Let_def
  by (intro emits_seq emits_report emits_perform emits_return) simp_all

lemma emits_capture_loop: "emits (Collect is_step_act) (capture_loop E url cb n ps imgs)"
  by (induction ps arbitrary: imgs) (auto intro!: emits_seq emits_return emits_capture_step)

lemma emits_write_pdf:
  "OpenOutput out \<in> A \<Longrightarrow> Img2pdfConvert imgs \<in> A \<Longrightarrow> WriteOutput (pdf_bytes E imgs) \<in> A
     \<Longrightarrow> CloseOutput \<in> A \<Longrightarrow> emits A (write_pdf E out imgs)"
  unfolding emits_def
proof (intro allI)
  fix w
  assume a: "OpenOutput out \<in> A" "Img2pdfConvert imgs \<in> A" "WriteOutput (pdf_bytes E imgs) \<in> A"
    "CloseOutput \<in> A"
  have "\<exists>t. trace (snd (write_pdf E out imgs w)) = trace w @ OpenOutput out # t \<and> set t \<subseteq> A"
    using a
    by (auto simp: write_pdf_def seq_def try_finally_def perform_def split: option.splits)
  then obtain t where "trace (snd (write_pdf E out imgs w)) = trace w @ OpenOutput out # t"
    "set t \<subseteq> A" by blast
  then show "\<exists>t. trace (snd (write_pdf E out imgs w)) = trace w @ t \<and> set t \<subseteq> A
      \<and> (output_file (snd (write_pdf E out imgs w)) = output_file w
          \<or> (\<exists>path. OpenOutput path \<in> set t))"
    using a(1) by (intro exI [of _ "OpenOutput out # t"]) auto
qed

text \<open>The actions of the body of the try: everything but the session's own.\<close>

lemma emits_capture_and_assemble:
  assumes "Collect is_step_act \<subseteq> A" "MkTempDir \<in> A" "RmTempDir \<in> A"
    "\<And>out. OpenOutput out \<in> A" "\<And>imgs. Img2pdfConvert imgs \<in> A" "\<And>b. WriteOutput b \<in> A"
    "CloseOutput \<in> A"
  shows "emits A (capture_and_assemble E url out cb steps)"
proof -
  have prog: "\<And>c n m. Progress c n m \<in> A" using assms(1) by auto
  show ?thesis
    unfolding capture_and_assemble_def Let_def
    by (intro emits_seq emits_try_finally emits_perform emits_report
        emits_mono [OF emits_capture_loop assms(1)])
       (simp_all add: assms prog emits_raise emits_write_pdf)
qed


lemma emits_try_block:
  "emits {a. \<not> is_session_act a} (try_block E url out cb)"
proof -
  have sub: "Collect is_step_act \<subseteq> {a. \<not> is_session_act a}"
  proof
    fix a assume "a \<in> Collect is_step_act"
    then show "a \<in> {a. \<not> is_session_act a}" by (cases a) simp_all
  qed
  have ca: "\<And>steps. emits {a. \<not> is_session_act a} (capture_and_assemble E url out cb steps)"
    by (rule emits_capture_and_assemble [OF sub]) simp_all
  show ?thesis
    unfolding try_block_def analyze_presentation_def
    by (intro emits_seq emits_report emits_perform emits_return)
       (auto split: info.splits intro!: emits_seq emits_perform emits_raise ca)
qed

subsection \<open>Runs in which nothing raises\<close>

lemma enumerate_Nil_iff: "enumerate n xs = [] \<longleftrightarrow> xs = []"
  by (cases xs) simp_all

lemma capture_step_ok:
  assumes "raises E = (\<lambda>k. None)"
  shows "capture_step E url cb n idx h w =
           (Inr (img_path E (idx + 1)), w\<lparr>trace := trace w @ step_actions E url cb n (idx, h)\<rparr>)"
  using assms
  by (simp add: capture_step_def step_actions_def seq_def report_def return_def perform_ok Let_def)

lemma capture_loop_ok:
  assumes "raises E = (\<lambda>k. None)"
  shows "capture_loop E url cb n ps imgs w =
           (Inr (imgs @ map (\<lambda>(idx, h). img_path E (idx + 1)) ps),
            w\<lparr>trace := trace w @ concat (map (step_actions E url cb n) ps)\<rparr>)"
proof (induction ps arbitrary: imgs w)
  case Nil
  then show ?case by (simp add: return_def)
next
  case (Cons p ps)
  obtain idx h where p: "p = (idx, h)" by (cases p)
  show ?case
    unfolding p
    by (simp add: seq_def capture_step_ok [OF assms] Cons.IH)
qed

lemma capture_and_assemble_ok:
  assumes "raises E = (\<lambda>k. None)"
  shows "capture_and_assemble E url out cb steps w =
     (if steps = [] then Inl RuntimeError else Inr (),
      w\<lparr>trace := trace w @ [MkTempDir]
          @ concat (map (step_actions E url cb (length steps)) (enumerate 0 steps))
          @ epilogue_inner E out cb steps,
        output_file := (if steps = [] then output_file w else Some (pdf_bytes E (images E steps)))\<rparr>)"
  using assms
  by (simp add: capture_and_assemble_def Let_def seq_def try_finally_def report_def return_def
      raise_def write_pdf_def perform_ok capture_loop_ok images_def enumerate_Nil_iff
      epilogue_inner_def)

lemma convert_ok:
  assumes "raises E = (\<lambda>k. None)" and "analysis E \<noteq> Unknown"
  shows "convert_presentation E url out q cb w =
     (if generate_steps (analysis E) = [] then Inl RuntimeError else Inr (),
      w\<lparr>trace := trace w @ script E url out q cb,
        output_file := (if generate_steps (analysis E) = [] then output_file w
                        else Some (pdf_bytes E (images E (generate_steps (analysis E))))),
        browser_open := False, playwright_running := False\<rparr>)"
proof (cases "analysis E")
  case (Sozi width height frames)
  then show ?thesis
    using assms(1)
    by (simp add: convert_presentation_def try_block_def analyze_presentation_def seq_def
        try_finally_def report_def return_def perform_ok capture_and_assemble_ok script_def
        prelude_def epilogue_def setup_actions_def Let_def)
next
  case (JessyInk width height counts)
  then show ?thesis
    using assms(1)
    by (simp add: convert_presentation_def try_block_def analyze_presentation_def seq_def
        try_finally_def report_def return_def perform_ok capture_and_assemble_ok script_def
        prelude_def epilogue_def setup_actions_def Let_def del: generate_steps.simps)
next
  case Unknown
  with assms(2) show ?thesis by simp
qed

lemma convert_unknown_ok:
  assumes "raises E = (\<lambda>k. None)" and "analysis E = Unknown"
  shows "convert_presentation E url out q cb w =
     (Inl ValueError,
      w\<lparr>trace := trace w @ [PlaywrightStart, ChromiumLaunch, NewContext q, NewPage]
          @ (if cb then [Progress 0 0 Cargando] else [])
          @ [Goto url, WaitForLoadState, Evaluate, BrowserClose, PlaywrightStop],
        browser_open := False, playwright_running := False\<rparr>)"
  using assms
  by (simp add: convert_presentation_def try_block_def analyze_presentation_def seq_def
      try_finally_def report_def return_def raise_def perform_ok)

subsection \<open>Runs that return\<close>

lemma succ_stable_refl: "succ_stable p p"
  by (simp add: succ_stable_def)

lemma succ_stable_perform: "succ_stable (perform E a) (perform (no_faults E) a)"
  by (cases a) (auto simp: succ_stable_def perform_def no_faults_def split: option.splits)

lemma succ_stable_seq:
  assumes "succ_stable p p'" and "\<And>x. succ_stable (f x) (f' x)"
  shows "succ_stable (seq p f) (seq p' f')"
  using assms unfolding succ_stable_def seq_def
  by (auto split: prod.splits sum.splits)

lemma succ_stable_try_finally:
  assumes "succ_stable p p'" and "succ_stable q q'"
  shows "succ_stable (try_finally p q) (try_finally p' q')"
  using assms unfolding succ_stable_def try_finally_def
  by (auto split: prod.splits sum.splits)

lemma succ_stable_report: "succ_stable (report E cb c n m) (report (no_faults E) cb c n m)"
  by (simp add: report_def succ_stable_perform succ_stable_refl)

lemma no_faults_simps [simp]:
  "analysis (no_faults E) = analysis E" "tmp_dir (no_faults E) = tmp_dir E"
  "pdf_bytes (no_faults E) = pdf_bytes E" "raises (no_faults E) = (\<lambda>k. None)"
  "img_path (no_faults E) = img_path E"
  by (simp_all add: no_faults_def img_path_def fun_eq_iff)

lemma succ_stable_capture_step:
  "succ_stable (capture_step E url cb n idx h) (capture_step (no_faults E) url cb n idx h)"
  unfolding capture_step_def Let_def
  by (intro succ_stable_seq succ_stable_report succ_stable_perform)
     (simp_all add: succ_stable_refl succ_stable_perform)

lemma succ_stable_capture_loop:
  "succ_stable (capture_loop E url cb n ps imgs) (capture_loop (no_faults E) url cb n ps imgs)"
  by (induction ps arbitrary: imgs)
     (auto intro!: succ_stable_seq succ_stable_refl succ_stable_capture_step)

lemma succ_stable_write_pdf:
  "succ_stable (write_pdf E out imgs) (write_pdf (no_faults E) out imgs)"
  unfolding write_pdf_def
  by (intro succ_stable_seq succ_stable_try_finally succ_stable_perform)
     (simp_all add: succ_stable_perform)

lemma succ_stable_capture_and_assemble:
  "succ_stable (capture_and_assemble E url out cb steps)
     (capture_and_assemble (no_faults E) url out cb steps)"
  unfolding capture_and_assemble_def Let_def
  by (intro succ_stable_seq succ_stable_try_finally succ_stable_perform succ_stable_capture_loop
      succ_stable_report)
     (simp_all add: succ_stable_refl succ_stable_write_pdf)

lemma succ_stable_try_block:
  "succ_stable (try_block E url out cb) (try_block (no_faults E) url out cb)"
  unfolding try_block_def analyze_presentation_def
  by (intro succ_stable_seq succ_stable_report succ_stable_perform)
     (auto simp: succ_stable_refl split: info.splits
       intro!: succ_stable_seq succ_stable_perform succ_stable_capture_and_assemble)

lemma succ_stable_convert:
  "succ_stable (convert_presentation E url out q cb)
     (convert_presentation (no_faults E) url out q cb)"
  unfolding convert_presentation_def
  by (intro succ_stable_seq succ_stable_try_finally succ_stable_perform succ_stable_try_block)

lemma images_no_faults [simp]: "images (no_faults E) = images E"
  by (simp add: images_def fun_eq_iff)

lemma script_no_faults [simp]: "script (no_faults E) = script E"
  by (simp add: script_def prelude_def epilogue_def epilogue_inner_def step_actions_def
      fun_eq_iff Let_def)

lemma convert_success:
  assumes "convert_presentation E url out q cb w = (Inr (), w')"
  shows "analysis E \<noteq> Unknown \<and> generate_steps (analysis E) \<noteq> []
     \<and> w' = w\<lparr>trace := trace w @ script E url out q cb,
        output_file := Some (pdf_bytes E (images E (generate_steps (analysis E)))),
        browser_open := False, playwright_running := False\<rparr>"
proof -
  from assms have run: "convert_presentation (no_faults E) url out q cb w = (Inr (), w')"
    using succ_stable_convert [of E url out q cb] unfolding succ_stable_def by blast
  have known: "analysis E \<noteq> Unknown"
  proof
    assume "analysis E = Unknown"
    then show False using run convert_unknown_ok [of "no_faults E" url out q cb w] by simp
  qed
  then have eq: "convert_presentation (no_faults E) url out q cb w =
     (if generate_steps (analysis E) = [] then Inl RuntimeError else Inr (),
      w\<lparr>trace := trace w @ script E url out q cb,
        output_file := (if generate_steps (analysis E) = [] then output_file w
                        else Some (pdf_bytes E (images E (generate_steps (analysis E))))),
        browser_open := False, playwright_running := False\<rparr>)"
    using convert_ok [of "no_faults E" url out q cb w] by simp
  from run eq have "generate_steps (analysis E) \<noteq> []" by (auto split: if_splits)
  with run eq known show ?thesis by simp
qed

subsection \<open>Projections of the script\<close>

lemma progress_calls_append: "progress_calls (a @ b) = progress_calls a @ progress_calls b"
  by (induction a rule: progress_calls.induct) simp_all

lemma navigations_append: "navigations (a @ b) = navigations a @ navigations b"
  by (induction a rule: navigations.induct) simp_all

lemma screenshots_append: "screenshots (a @ b) = screenshots a @ screenshots b"
  by (induction a rule: screenshots.induct) simp_all

lemma progress_calls_steps:
  "progress_calls (concat (map (step_actions E url True n) (enumerate k steps))) =
     map (\<lambda>i. (i, n, Capturando i n)) [k + 1..<k + 1 + length steps]"
proof (induction steps arbitrary: k)
  case Nil
  then show ?case by simp
next
  case (Cons h steps)
  have "[k + 1..<k + 1 + length (h # steps)] = (k + 1) # [Suc k + 1..<Suc k + 1 + length steps]"
    using upt_conv_Cons [of "k + 1" "k + 1 + length (h # steps)"] by simp
  then show ?case
    using Cons.IH [of "Suc k"] by (simp add: step_actions_def progress_calls_append)
qed

lemma navigations_steps:
  "navigations (concat (map (step_actions E url cb n) (enumerate k steps))) =
     map (\<lambda>h. url @ h) steps"
  by (cases cb; induction steps arbitrary: k) (simp_all add: step_actions_def)

lemma screenshots_steps:
  "screenshots (concat (map (step_actions E url cb n) (enumerate k steps))) =
     map (\<lambda>(idx, h). img_path E (idx + 1)) (enumerate k steps)"
  by (cases cb; induction steps arbitrary: k) (simp_all add: step_actions_def)

lemma progress_calls_script:
  "analysis E \<noteq> Unknown \<Longrightarrow> progress_calls (script E url out q True) =
     (0, 0, Cargando)
     # map (\<lambda>i. (i, length (generate_steps (analysis E)),
                   Capturando i (length (generate_steps (analysis E)))))
           [1..<length (generate_steps (analysis E)) + 1]
     @ [(length (generate_steps (analysis E)), length (generate_steps (analysis E)), GenerandoPDF)]"
  using progress_calls_steps [of E url "length (generate_steps (analysis E))" 0
      "generate_steps (analysis E)"]
  by (cases "analysis E")
     (simp_all add: script_def prelude_def epilogue_def epilogue_inner_def setup_actions_def
       progress_calls_append Let_def del: generate_steps.simps)

lemma navigations_script:
  "analysis E \<noteq> Unknown \<Longrightarrow> navigations (script E url out q cb) =
     url # map (\<lambda>h. url @ h) (generate_steps (analysis E))"
  by (cases "analysis E")
     (simp_all add: script_def prelude_def epilogue_def epilogue_inner_def setup_actions_def
       navigations_append navigations_steps Let_def del: generate_steps.simps)

lemma screenshots_script:
  "analysis E \<noteq> Unknown \<Longrightarrow> screenshots (script E url out q cb) =
     images E (generate_steps (analysis E))"
  by (cases "analysis E")
     (simp_all add: script_def prelude_def epilogue_def epilogue_inner_def setup_actions_def
       screenshots_append screenshots_steps images_def Let_def del: generate_steps.simps)

lemma length_images [simp]: "length (images E steps) = length steps"
  by (simp add: images_def)


subsection \<open>A concrete run\<close>

lemma demo_env_fields:
  "raises (demo_env i) = (\<lambda>k. None)" "analysis (demo_env i) = i"
  "tmp_dir (demo_env i) = ''/tmp/x''"
  "pdf_bytes (demo_env i) = (\<lambda>ps. [37, 80, 68, 70] @ map length ps)"
  by (simp_all add: demo_env_def)

lemma demo_img_path: "img_path (demo_env i) (Suc 0) = ''/tmp/x/0001.png''"
  by (simp add: img_path_def pad4_def str_nat.simps digit_def demo_env_fields numeral_3_eq_3)

lemma demo_run:
  "convert_presentation (demo_env (Sozi 1024 768 [''intro''])) ''file:///a.svg'' ''a.pdf'' 4 True w_init
   = (Inr (),
      \<lparr>trace = [PlaywrightStart, ChromiumLaunch, NewContext 4, NewPage, Progress 0 0 Cargando,
         Goto ''file:///a.svg'', WaitForLoadState, Evaluate, AddStyleTag, SetViewportSize 1024 768,
         MkTempDir, Progress 1 1 (Capturando 1 1), Goto ''file:///a.svg#intro'', Reload, Sleep,
         Screenshot ''/tmp/x/0001.png'', Progress 1 1 GenerandoPDF, OpenOutput ''a.pdf'',
         Img2pdfConvert [''/tmp/x/0001.png''], WriteOutput [37, 80, 68, 70, 15], CloseOutput,
         RmTempDir, BrowserClose, PlaywrightStop],
       output_file = Some [37, 80, 68, 70, 15], browser_open = False,
       playwright_running = False\<rparr>)"
  by (simp add: convert_ok script_def prelude_def epilogue_def epilogue_inner_def
      setup_actions_def step_actions_def images_def img_path_def pad4_def str_nat.simps
      digit_def demo_env_def w_init_def numeral_3_eq_3)


lemma faulty_run:
  "convert_presentation faulty_env ''file:///a.svg'' ''a.pdf'' 4 True w_init
   = (Inl (Failure ''img2pdf''),
      \<lparr>trace = [PlaywrightStart, ChromiumLaunch, NewContext 4, NewPage, Progress 0 0 Cargando,
         Goto ''file:///a.svg'', WaitForLoadState, Evaluate, AddStyleTag, SetViewportSize 1024 768,
         MkTempDir, Progress 1 1 (Capturando 1 1), Goto ''file:///a.svg#intro'', Reload, Sleep,
         Screenshot ''/tmp/x/0001.png'', Progress 1 1 GenerandoPDF, OpenOutput ''a.pdf'',
         Img2pdfConvert [''/tmp/x/0001.png''], CloseOutput, RmTempDir, BrowserClose,
         PlaywrightStop],
       output_file = Some [], browser_open = False, playwright_running = False\<rparr>)"
  by (simp add: convert_presentation_def try_block_def analyze_presentation_def
      capture_and_assemble_def capture_step_def write_pdf_def seq_def try_finally_def report_def
      return_def raise_def perform_def faulty_env_def demo_env_def w_init_def Let_def
      img_path_def pad4_def str_nat.simps digit_def numeral_3_eq_3)


lemma capture_fail_run:
  "convert_presentation capture_fail_env ''file:///a.svg'' ''a.pdf'' 4 True w_init
   = (Inl (Failure ''goto''),
      \<lparr>trace = [PlaywrightStart, ChromiumLaunch, NewContext 4, NewPage, Progress 0 0 Cargando,
         Goto ''file:///a.svg'', WaitForLoadState, Evaluate, AddStyleTag, SetViewportSize 1024 768,
         MkTempDir, Progress 1 1 (Capturando 1 1), Goto ''file:///a.svg#intro'', RmTempDir,
         BrowserClose, PlaywrightStop],
       output_file = None, browser_open = False, playwright_running = False\<rparr>)"
  by (simp add: convert_presentation_def try_block_def analyze_presentation_def
      capture_and_assemble_def capture_step_def write_pdf_def seq_def try_finally_def report_def
      return_def raise_def perform_def capture_fail_env_def demo_env_def w_init_def Let_def)


subsection \<open>Unsupported presentations and empty plans\<close>

text \<open>
  C3. When the page script reports \<open>unknown\<close>, the planner returns no step and the
  conversion raises, whatever else raises on the way; when nothing else raises the exception
  is the \<open>ValueError\<close> of the source. The only actions attempted are the session's
  own, the first progress report, the loading of the document (the only navigation) and the
  inspection: no step is navigated to, no screenshot is taken, no temporary directory is made,
  and the output file is neither opened nor changed.
\<close>

theorem unknown_fails_fast:
  assumes "analysis E = Unknown"
    and "convert_presentation E file_url output_path quality cb w = (r, w')"
  shows "generate_steps (analysis E) = []
    \<and> (\<exists>e. r = Inl e)
    \<and> (raises E = (\<lambda>k. None) \<longrightarrow> r = Inl ValueError)
    \<and> set (new_actions w w') \<subseteq>
          {PlaywrightStart, ChromiumLaunch, NewContext quality, NewPage, Progress 0 0 Cargando,
           Goto file_url, WaitForLoadState, Evaluate, BrowserClose, PlaywrightStop}
    \<and> output_file w' = output_file w"
  using assms
  by (auto simp: new_actions_def convert_presentation_def try_block_def analyze_presentation_def
      seq_def try_finally_def report_def return_def raise_def perform_def
      split: option.splits if_splits)

theorem unknown_fails_fast_witness:
  "analysis (demo_env Unknown) = Unknown
   \<and> fst (convert_presentation (demo_env Unknown) ''file:///a.svg'' ''a.pdf'' 4 True w_init)
       = Inl ValueError
   \<and> output_file (snd (convert_presentation (demo_env Unknown) ''file:///a.svg'' ''a.pdf'' 4 True w_init))
       = None"
  using unknown_fails_fast [of "demo_env Unknown" "''file:///a.svg''" "''a.pdf''" 4 True w_init,
      OF _ surjective_pairing]
  by (simp add: demo_env_def w_init_def)

text \<open>
  C7. When the plan is empty although the presentation is recognised (a Sozi document with no
  frame, for instance), the conversion raises, whatever else raises on the way; when nothing
  else raises the exception is the \<open>RuntimeError\<close> of the source. No screenshot is taken,
  the output file is never opened and its contents are unchanged.
\<close>

theorem empty_plan_fails:
  assumes "analysis E \<noteq> Unknown" and "generate_steps (analysis E) = []"
    and "convert_presentation E file_url output_path quality cb w = (r, w')"
  shows "(\<exists>e. r = Inl e)
    \<and> (raises E = (\<lambda>k. None) \<longrightarrow> r = Inl RuntimeError)
    \<and> (\<forall>path. OpenOutput path \<notin> set (new_actions w w'))
    \<and> screenshots (new_actions w w') = []
    \<and> output_file w' = output_file w"
proof (cases "analysis E")
  case (Sozi width height frames)
  with assms(2) have "frames = []" by simp
  with Sozi assms(3) show ?thesis
    by (auto simp: new_actions_def convert_presentation_def try_block_def
        analyze_presentation_def capture_and_assemble_def seq_def try_finally_def report_def
        return_def raise_def perform_def
        split: option.splits if_splits)
next
  case (JessyInk width height counts)
  with assms(2) have "counts = []" by (simp add: slide_loop_Nil)
  with JessyInk assms(3) show ?thesis
    by (auto simp: new_actions_def convert_presentation_def try_block_def
        analyze_presentation_def capture_and_assemble_def seq_def try_finally_def report_def
        return_def raise_def perform_def
        split: option.splits if_splits)
next
  case Unknown
  with assms(1) show ?thesis by simp
qed

theorem empty_plan_fails_witness:
  "analysis (demo_env (Sozi 1024 768 [])) \<noteq> Unknown
   \<and> generate_steps (analysis (demo_env (Sozi 1024 768 []))) = []
   \<and> fst (convert_presentation (demo_env (Sozi 1024 768 [])) ''file:///a.svg'' ''a.pdf'' 4 True w_init)
       = Inl RuntimeError
   \<and> output_file (snd (convert_presentation (demo_env (Sozi 1024 768 [])) ''file:///a.svg'' ''a.pdf'' 4 True w_init))
       = None"
  using empty_plan_fails [of "demo_env (Sozi 1024 768 [])" "''file:///a.svg''" "''a.pdf''" 4 True
      w_init, OF _ _ surjective_pairing]
  by (simp add: demo_env_def w_init_def)

subsection \<open>Progress reports\<close>

text \<open>
  C5, as stated: the report for a step follows the step's screenshot. In the run of a Sozi
  document with the single frame \<open>intro\<close> the report \<open>(1, 1)\<close> of the capture loop is
  made before the screenshot of step 1, so the stated order fails.
\<close>

theorem progress_after_capture_counterexample:
  "\<not> reports_after_work (demo_env (Sozi 1024 768 [''intro''])) 1
      (trace (snd (convert_presentation (demo_env (Sozi 1024 768 [''intro'']))
         ''file:///a.svg'' ''a.pdf'' 4 True w_init)))"
  by (simp add: demo_run reports_after_work_def demo_img_path)

text \<open>
  C5, amended: in every run that returns, and in every run in which no action raises, the
  capture loop performs for each planned step, in order, the progress report
  \<open>(i, n, Capturando i/n)\<close> first and then the navigation, the reload, the settle delay
  and the screenshot of that step; nothing else happens between two steps.
\<close>

theorem progress_before_capture:
  assumes "steps = generate_steps (analysis E)" and "n = length steps"
  shows "(convert_presentation E file_url output_path quality True w = (Inr (), w') \<longrightarrow>
            new_actions w w' =
              prelude E file_url quality True
              @ concat (map (\<lambda>(idx, step_hash).
                    [Progress (idx + 1) n (Capturando (idx + 1) n),
                     Goto (file_url @ step_hash), Reload, Sleep, Screenshot (img_path E (idx + 1))])
                  (enumerate 0 steps))
              @ epilogue E output_path True steps)
       \<and> (raises E = (\<lambda>k. None) \<and> analysis E \<noteq> Unknown \<longrightarrow>
            new_actions w (snd (convert_presentation E file_url output_path quality True w)) =
              prelude E file_url quality True
              @ concat (map (\<lambda>(idx, step_hash).
                    [Progress (idx + 1) n (Capturando (idx + 1) n),
                     Goto (file_url @ step_hash), Reload, Sleep, Screenshot (img_path E (idx + 1))])
                  (enumerate 0 steps))
              @ epilogue E output_path True steps)"
proof -
  have shape: "script E file_url output_path quality True =
      prelude E file_url quality True
      @ concat (map (\<lambda>(idx, step_hash).
            [Progress (idx + 1) n (Capturando (idx + 1) n),
             Goto (file_url @ step_hash), Reload, Sleep, Screenshot (img_path E (idx + 1))])
          (enumerate 0 steps))
      @ epilogue E output_path True steps"
    using assms by (simp add: script_def step_actions_def Let_def)
  show ?thesis
  proof (intro conjI impI)
    assume run: "convert_presentation E file_url output_path quality True w = (Inr (), w')"
    from convert_success [OF run]
    have "trace w' = trace w @ script E file_url output_path quality True" by simp
    then show "new_actions w w' =
        prelude E file_url quality True
        @ concat (map (\<lambda>(idx, step_hash).
              [Progress (idx + 1) n (Capturando (idx + 1) n),
               Goto (file_url @ step_hash), Reload, Sleep, Screenshot (img_path E (idx + 1))])
            (enumerate 0 steps))
        @ epilogue E output_path True steps"
      using shape by (simp add: new_actions_def)
  next
    assume "raises E = (\<lambda>k. None) \<and> analysis E \<noteq> Unknown"
    then have ff: "raises E = (\<lambda>k. None)" and known: "analysis E \<noteq> Unknown" by simp_all
    show "new_actions w (snd (convert_presentation E file_url output_path quality True w)) =
        prelude E file_url quality True
        @ concat (map (\<lambda>(idx, step_hash).
              [Progress (idx + 1) n (Capturando (idx + 1) n),
               Goto (file_url @ step_hash), Reload, Sleep, Screenshot (img_path E (idx + 1))])
            (enumerate 0 steps))
        @ epilogue E output_path True steps"
      using shape by (simp add: new_actions_def convert_ok [OF ff known])
  qed
qed

theorem progress_before_capture_witness:
  "new_actions w_init (snd (convert_presentation (demo_env (Sozi 1024 768 [''intro'']))
       ''file:///a.svg'' ''a.pdf'' 4 True w_init)) =
     [PlaywrightStart, ChromiumLaunch, NewContext 4, NewPage, Progress 0 0 Cargando,
      Goto ''file:///a.svg'', WaitForLoadState, Evaluate, AddStyleTag, SetViewportSize 1024 768,
      MkTempDir, Progress 1 1 (Capturando 1 1), Goto ''file:///a.svg#intro'', Reload, Sleep,
      Screenshot ''/tmp/x/0001.png'', Progress 1 1 GenerandoPDF, OpenOutput ''a.pdf'',
      Img2pdfConvert [''/tmp/x/0001.png''], WriteOutput [37, 80, 68, 70, 15], CloseOutput,
      RmTempDir, BrowserClose, PlaywrightStop]"
proof -
  let ?E = "demo_env (Sozi 1024 768 [''intro''])"
  have h: "raises ?E = (\<lambda>k. None) \<and> analysis ?E \<noteq> Unknown"
    by (simp add: demo_env_def)
  have s: "generate_steps (analysis ?E) = [''#intro'']" by (simp add: demo_env_def)
  from progress_before_capture [of "[''#intro'']" ?E 1 "''file:///a.svg''" "''a.pdf''" 4 w_init
      undefined] s h
  have "new_actions w_init (snd (convert_presentation ?E ''file:///a.svg'' ''a.pdf'' 4 True w_init)) =
      prelude ?E ''file:///a.svg'' 4 True
      @ concat (map (\<lambda>(idx, step_hash).
            [Progress (idx + 1) 1 (Capturando (idx + 1) 1),
             Goto (''file:///a.svg'' @ step_hash), Reload, Sleep, Screenshot (img_path ?E (idx + 1))])
          (enumerate 0 [''#intro'']))
      @ epilogue ?E ''a.pdf'' True [''#intro'']"
    by simp
  then show ?thesis
    by (simp add: prelude_def epilogue_def epilogue_inner_def setup_actions_def images_def
        demo_img_path demo_env_fields)
qed

text \<open>
  C10. With a callback, a run that returns calls it with \<open>(0, 0)\<close> and the loading
  message, then with \<open>(i, n)\<close> for \<open>i = 1, ..., n\<close> in increasing order, then with
  \<open>(n, n)\<close> and the assembling message: \<open>n + 2\<close> calls. The same sequence is produced
  by every run of a recognised presentation in which no action raises, so with \<open>n = 0\<close>
  (where the run ends in the \<open>RuntimeError\<close>) the last call is \<open>(0, 0)\<close>.
\<close>

theorem progress_sequence:
  assumes "n = length (generate_steps (analysis E))"
  shows "(convert_presentation E file_url output_path quality True w = (Inr (), w') \<longrightarrow>
            progress_calls (new_actions w w') =
              (0, 0, Cargando) # map (\<lambda>i. (i, n, Capturando i n)) [1..<n + 1] @ [(n, n, GenerandoPDF)])
       \<and> (raises E = (\<lambda>k. None) \<and> analysis E \<noteq> Unknown \<longrightarrow>
            progress_calls (new_actions w (snd (convert_presentation E file_url output_path quality True w))) =
              (0, 0, Cargando) # map (\<lambda>i. (i, n, Capturando i n)) [1..<n + 1] @ [(n, n, GenerandoPDF)])"
proof (intro conjI impI)
  assume run: "convert_presentation E file_url output_path quality True w = (Inr (), w')"
  from convert_success [OF run]
  have known: "analysis E \<noteq> Unknown"
    and tr: "trace w' = trace w @ script E file_url output_path quality True"
    by simp_all
  show "progress_calls (new_actions w w') =
      (0, 0, Cargando) # map (\<lambda>i. (i, n, Capturando i n)) [1..<n + 1] @ [(n, n, GenerandoPDF)]"
    using progress_calls_script [OF known, of file_url output_path quality] tr assms
    by (simp add: new_actions_def)
next
  assume "raises E = (\<lambda>k. None) \<and> analysis E \<noteq> Unknown"
  then have ff: "raises E = (\<lambda>k. None)" and known: "analysis E \<noteq> Unknown" by simp_all
  show "progress_calls (new_actions w (snd (convert_presentation E file_url output_path quality True w))) =
      (0, 0, Cargando) # map (\<lambda>i. (i, n, Capturando i n)) [1..<n + 1] @ [(n, n, GenerandoPDF)]"
    using progress_calls_script [OF known, of file_url output_path quality] assms
    by (simp add: new_actions_def convert_ok [OF ff known])
qed



text \<open>
  A Sozi document with one frame: three calls. A Sozi document with no frame: the calls
  \<open>(0, 0)\<close> and \<open>(0, 0)\<close>.
\<close>

theorem progress_sequence_witness:
  "fst (convert_presentation (demo_env (Sozi 1024 768 [''intro''])) ''file:///a.svg'' ''a.pdf'' 4 True w_init)
     = Inr ()
   \<and> progress_calls (new_actions w_init (snd (convert_presentation
        (demo_env (Sozi 1024 768 [''intro''])) ''file:///a.svg'' ''a.pdf'' 4 True w_init)))
     = [(0, 0, Cargando), (1, 1, Capturando 1 1), (1, 1, GenerandoPDF)]
   \<and> progress_calls (new_actions w_init (snd (convert_presentation
        (demo_env (Sozi 1024 768 [])) ''file:///a.svg'' ''a.pdf'' 4 True w_init)))
     = [(0, 0, Cargando), (0, 0, GenerandoPDF)]"
proof -
  let ?E = "demo_env (Sozi 1024 768 [''intro''])"
  let ?run = "convert_presentation ?E ''file:///a.svg'' ''a.pdf'' 4 True w_init"
  let ?Z = "demo_env (Sozi 1024 768 [])"
  let ?zero = "convert_presentation ?Z ''file:///a.svg'' ''a.pdf'' 4 True w_init"
  have n: "1 = length (generate_steps (analysis ?E))" by (simp add: demo_env_fields)
  have ok: "?run = (Inr (), snd ?run)" by (simp add: demo_run)
  from progress_sequence [OF n, of "''file:///a.svg''" "''a.pdf''" 4 w_init "snd ?run"] ok
  have "progress_calls (new_actions w_init (snd ?run)) =
      (0, 0, Cargando) # map (\<lambda>i. (i, 1, Capturando i 1)) [1..<1 + 1] @ [(1, 1, GenerandoPDF)]"
    by blast
  moreover have "fst ?run = Inr ()" by (simp add: demo_run)
  moreover have z: "0 = length (generate_steps (analysis ?Z))" by (simp add: demo_env_fields)
  have "raises ?Z = (\<lambda>k. None) \<and> analysis ?Z \<noteq> Unknown" by (simp add: demo_env_fields)
  with progress_sequence [OF z, of "''file:///a.svg''" "''a.pdf''" 4 w_init undefined]
  have "progress_calls (new_actions w_init (snd ?zero)) =
      (0, 0, Cargando) # map (\<lambda>i. (i, 0, Capturando i 0)) [1..<0 + 1] @ [(0, 0, GenerandoPDF)]"
    by blast
  ultimately show ?thesis by simp
qed

subsection \<open>Quality\<close>

lemma same_but_quality_length: "same_but_quality w1 w2 \<Longrightarrow> length (trace w1) = length (trace w2)"
  unfolding same_but_quality_def by (metis length_map)

lemma quality_blind_perform:
  assumes "erase_quality a = erase_quality b"
  shows "quality_blind (perform E a) (perform E b)"
  unfolding quality_blind_def
proof (intro allI impI)
  fix w1 w2 :: world
  assume sim: "same_but_quality w1 w2"
  then have len: "length (trace w1) = length (trace w2)" by (rule same_but_quality_length)
  from assms have ab: "a = b \<or> (\<exists>q1 q2. a = NewContext q1 \<and> b = NewContext q2)"
    by (cases a; cases b) simp_all
  show "fst (perform E a w1) = fst (perform E b w2)
      \<and> same_but_quality (snd (perform E a w1)) (snd (perform E b w2))"
  proof (cases "a = b")
    case True
    then show ?thesis
      using sim len
      by (cases b) (auto simp: perform_def same_but_quality_def split: option.splits)
  next
    case False
    with ab obtain q1 q2 where "a = NewContext q1" "b = NewContext q2" by blast
    then show ?thesis
      using sim len by (auto simp: perform_def same_but_quality_def split: option.splits)
  qed
qed

lemma quality_blind_return: "quality_blind (return x) (return x)"
  by (simp add: quality_blind_def return_def)

lemma quality_blind_raise: "quality_blind (raise e) (raise e)"
  by (simp add: quality_blind_def raise_def)

lemma quality_blind_seq:
  assumes "quality_blind p1 p2" and "\<And>x. quality_blind (f1 x) (f2 x)"
  shows "quality_blind (seq p1 f1) (seq p2 f2)"
  unfolding quality_blind_def
proof (intro allI impI)
  fix w1 w2 :: world
  assume sim: "same_but_quality w1 w2"
  obtain r1 v1 where p1: "p1 w1 = (r1, v1)" by (cases "p1 w1")
  obtain r2 v2 where p2: "p2 w2 = (r2, v2)" by (cases "p2 w2")
  from assms(1) sim p1 p2 have r: "r1 = r2" and v: "same_but_quality v1 v2"
    unfolding quality_blind_def by (metis fst_conv, metis snd_conv)
  show "fst (seq p1 f1 w1) = fst (seq p2 f2 w2)
      \<and> same_but_quality (snd (seq p1 f1 w1)) (snd (seq p2 f2 w2))"
  proof (cases r1)
    case (Inl e)
    then show ?thesis using p1 p2 r v by (simp add: seq_def)
  next
    case (Inr x)
    from assms(2) [of x] v
    have "fst (f1 x v1) = fst (f2 x v2) \<and> same_but_quality (snd (f1 x v1)) (snd (f2 x v2))"
      unfolding quality_blind_def by blast
    then show ?thesis using p1 p2 r Inr by (auto simp: seq_def)
  qed
qed

lemma quality_blind_try_finally:
  assumes "quality_blind p1 p2" and "quality_blind q1 q2"
  shows "quality_blind (try_finally p1 q1) (try_finally p2 q2)"
  unfolding quality_blind_def
proof (intro allI impI)
  fix w1 w2 :: world
  assume sim: "same_but_quality w1 w2"
  obtain r1 v1 where p1: "p1 w1 = (r1, v1)" by (cases "p1 w1")
  obtain r2 v2 where p2: "p2 w2 = (r2, v2)" by (cases "p2 w2")
  from assms(1) sim p1 p2 have r: "r1 = r2" and v: "same_but_quality v1 v2"
    unfolding quality_blind_def by (metis fst_conv, metis snd_conv)
  obtain s1 u1 where q1: "q1 v1 = (s1, u1)" by (cases "q1 v1")
  obtain s2 u2 where q2: "q2 v2 = (s2, u2)" by (cases "q2 v2")
  from assms(2) v q1 q2 have s: "s1 = s2" and u: "same_but_quality u1 u2"
    unfolding quality_blind_def by (metis fst_conv, metis snd_conv)
  show "fst (try_finally p1 q1 w1) = fst (try_finally p2 q2 w2)
      \<and> same_but_quality (snd (try_finally p1 q1 w1)) (snd (try_finally p2 q2 w2))"
    using p1 p2 q1 q2 r s u by (simp add: try_finally_def split: sum.splits)
qed

lemma quality_blind_report: "quality_blind (report E cb c n m) (report E cb c n m)"
  by (simp add: report_def quality_blind_perform quality_blind_return)

lemma quality_blind_capture_step:
  "quality_blind (capture_step E url cb n idx h) (capture_step E url cb n idx h)"
  unfolding capture_step_def Let_def
  by (intro quality_blind_seq quality_blind_report quality_blind_perform quality_blind_return)
     simp_all

lemma quality_blind_capture_loop:
  "quality_blind (capture_loop E url cb n ps imgs) (capture_loop E url cb n ps imgs)"
  by (induction ps arbitrary: imgs)
     (auto intro!: quality_blind_seq quality_blind_return quality_blind_capture_step)

lemma quality_blind_write_pdf: "quality_blind (write_pdf E out imgs) (write_pdf E out imgs)"
  unfolding write_pdf_def
  by (intro quality_blind_seq quality_blind_try_finally quality_blind_perform) simp_all

lemma quality_blind_capture_and_assemble:
  "quality_blind (capture_and_assemble E url out cb steps)
     (capture_and_assemble E url out cb steps)"
  unfolding capture_and_assemble_def Let_def
  by (intro quality_blind_seq quality_blind_try_finally quality_blind_perform
      quality_blind_report quality_blind_capture_loop)
     (simp_all add: quality_blind_raise quality_blind_write_pdf)

lemma quality_blind_try_block:
  "quality_blind (try_block E url out cb) (try_block E url out cb)"
  unfolding try_block_def analyze_presentation_def
  by (intro quality_blind_seq quality_blind_report quality_blind_perform quality_blind_return)
     (auto split: info.splits
       intro!: quality_blind_seq quality_blind_perform quality_blind_raise
         quality_blind_capture_and_assemble)

lemma quality_blind_convert:
  "quality_blind (convert_presentation E url out q1 cb) (convert_presentation E url out q2 cb)"
  unfolding convert_presentation_def
  by (intro quality_blind_seq quality_blind_try_finally quality_blind_perform
      quality_blind_try_block)
     simp_all

lemma navigations_erase: "navigations (map erase_quality t) = navigations t"
  by (induction t rule: navigations.induct) simp_all

lemma screenshots_erase: "screenshots (map erase_quality t) = screenshots t"
  by (induction t rule: screenshots.induct) simp_all

lemma progress_calls_erase: "progress_calls (map erase_quality t) = progress_calls t"
  by (induction t rule: progress_calls.induct) simp_all

lemma same_but_quality_refl: "same_but_quality w w"
  by (simp add: same_but_quality_def)

text \<open>
  C6. The planner has no quality argument: the steps are \<open>generate_steps\<close> of the
  metadata alone. Two runs on the same document, in the same world and with the same
  actions raising, that differ only in the quality end the same way, navigate to the same
  addresses, take the same screenshots, make the same progress reports and leave the same
  output. When the run returns, or when nothing raises on a recognised presentation, the
  addresses are the document followed by one address per planned step, in order, and there
  is one screenshot per planned step.
\<close>

theorem quality_independent_plan:
  assumes "convert_presentation E file_url output_path q1 cb w = (r1, w1)"
    and "convert_presentation E file_url output_path q2 cb w = (r2, w2)"
  shows "r2 = r1
    \<and> navigations (new_actions w w2) = navigations (new_actions w w1)
    \<and> screenshots (new_actions w w2) = screenshots (new_actions w w1)
    \<and> progress_calls (new_actions w w2) = progress_calls (new_actions w w1)
    \<and> output_file w2 = output_file w1
    \<and> (r1 = Inr () \<or> raises E = (\<lambda>k. None) \<and> analysis E \<noteq> Unknown \<longrightarrow>
         navigations (new_actions w w1)
           = file_url # map (\<lambda>h. file_url @ h) (generate_steps (analysis E))
         \<and> length (screenshots (new_actions w w1)) = length (generate_steps (analysis E)))"
proof -
  from quality_blind_convert [of E file_url output_path q1 cb q2] assms
  have r: "r1 = r2" and sim: "same_but_quality w1 w2"
    unfolding quality_blind_def using same_but_quality_refl [of w]
    by (metis fst_conv, metis snd_conv)
  from sim have tr: "map erase_quality (trace w1) = map erase_quality (trace w2)"
    and out: "output_file w1 = output_file w2"
    by (simp_all add: same_but_quality_def)
  have new: "map erase_quality (new_actions w w1) = map erase_quality (new_actions w w2)"
    using arg_cong [OF tr, of "drop (length (trace w))"] by (simp add: new_actions_def drop_map)
  have nav: "navigations (new_actions w w2) = navigations (new_actions w w1)"
    using arg_cong [OF new, of navigations] by (simp add: navigations_erase)
  have shots: "screenshots (new_actions w w2) = screenshots (new_actions w w1)"
    using arg_cong [OF new, of screenshots] by (simp add: screenshots_erase)
  have prog: "progress_calls (new_actions w w2) = progress_calls (new_actions w w1)"
    using arg_cong [OF new, of progress_calls] by (simp add: progress_calls_erase)
  have plan: "r1 = Inr () \<or> raises E = (\<lambda>k. None) \<and> analysis E \<noteq> Unknown \<longrightarrow>
         navigations (new_actions w w1)
           = file_url # map (\<lambda>h. file_url @ h) (generate_steps (analysis E))
         \<and> length (screenshots (new_actions w w1)) = length (generate_steps (analysis E))"
  proof
    assume "r1 = Inr () \<or> raises E = (\<lambda>k. None) \<and> analysis E \<noteq> Unknown"
    then have "analysis E \<noteq> Unknown \<and> trace w1 = trace w @ script E file_url output_path q1 cb"
    proof
      assume "r1 = Inr ()"
      with assms(1) convert_success [of E file_url output_path q1 cb w w1]
      show ?thesis by simp
    next
      assume ff: "raises E = (\<lambda>k. None) \<and> analysis E \<noteq> Unknown"
      then have "convert_presentation E file_url output_path q1 cb w =
        (if generate_steps (analysis E) = [] then Inl RuntimeError else Inr (),
         w\<lparr>trace := trace w @ script E file_url output_path q1 cb,
           output_file := (if generate_steps (analysis E) = [] then output_file w
              else Some (pdf_bytes E (images E (generate_steps (analysis E))))),
           browser_open := False, playwright_running := False\<rparr>)"
        by (intro convert_ok) simp_all
      with assms(1) ff show ?thesis by auto
    qed
    then show "navigations (new_actions w w1)
           = file_url # map (\<lambda>h. file_url @ h) (generate_steps (analysis E))
         \<and> length (screenshots (new_actions w w1)) = length (generate_steps (analysis E))"
      by (simp add: new_actions_def navigations_script screenshots_script)
  qed
  from r nav shots prog out plan show ?thesis by simp
qed

text \<open>
  Scenario E of the specification: quality 1 against quality 8 on a JessyInk document with
  effect counts \<open>[0, 2]\<close>.
\<close>

theorem quality_independent_plan_witness:
  "navigations (new_actions w_init (snd (convert_presentation (demo_env (JessyInk 1024 768 [0, 2]))
       ''file:///a.svg'' ''a.pdf'' 8 True w_init))) =
   navigations (new_actions w_init (snd (convert_presentation (demo_env (JessyInk 1024 768 [0, 2]))
       ''file:///a.svg'' ''a.pdf'' 1 True w_init)))
   \<and> navigations (new_actions w_init (snd (convert_presentation (demo_env (JessyInk 1024 768 [0, 2]))
       ''file:///a.svg'' ''a.pdf'' 1 True w_init))) =
     [''file:///a.svg'', ''file:///a.svg#1_0'', ''file:///a.svg#2_0'', ''file:///a.svg#2_1'',
      ''file:///a.svg#2_2'']
   \<and> length (screenshots (new_actions w_init (snd (convert_presentation
       (demo_env (JessyInk 1024 768 [0, 2])) ''file:///a.svg'' ''a.pdf'' 1 True w_init)))) = 4"
proof -
  let ?E = "demo_env (JessyInk 1024 768 [0, 2])"
  have h: "raises ?E = (\<lambda>k. None) \<and> analysis ?E \<noteq> Unknown"
    by (simp add: demo_env_fields)
  have s: "generate_steps (analysis ?E) = [''#1_0'', ''#2_0'', ''#2_1'', ''#2_2'']"
    by (simp add: demo_env_fields slide_loop_eq jessyink_hash_def upt_rec str_nat.simps digit_def)
  from quality_independent_plan [OF surjective_pairing surjective_pairing,
      of ?E "''file:///a.svg''" "''a.pdf''" 1 True w_init 8] h
  show ?thesis by (simp add: s)
qed

subsection \<open>The output file\<close>

text \<open>
  C4, as stated: after a failed conversion the output location is unchanged. When the PDF
  library raises, the output file has already been opened for writing: the conversion fails
  and leaves an empty file where there was none.
\<close>

theorem partial_output_counterexample:
  "fst (convert_presentation faulty_env ''file:///a.svg'' ''a.pdf'' 4 True w_init)
     = Inl (Failure ''img2pdf'')
   \<and> output_file w_init = None
   \<and> output_file (snd (convert_presentation faulty_env ''file:///a.svg'' ''a.pdf'' 4 True w_init))
     = Some []"
  by (simp add: faulty_run) (simp add: w_init_def)


lemma no_screenshots: "\<forall>a \<in> set t. \<not> is_screenshot a \<Longrightarrow> screenshots t = []"
  by (induction t rule: screenshots.induct) simp_all

lemma quiet_trace:
  assumes "set t \<subseteq> Collect is_quiet"
  shows "screenshots t = []" and "OpenOutput path \<notin> set t"
proof -
  have "\<forall>a \<in> set t. \<not> is_screenshot a"
  proof
    fix a assume "a \<in> set t"
    with assms have "is_quiet a" by auto
    then show "\<not> is_screenshot a" by (cases a) simp_all
  qed
  then show "screenshots t = []" by (rule no_screenshots)
  show "OpenOutput path \<notin> set t"
  proof
    assume "OpenOutput path \<in> set t"
    with assms have "is_quiet (OpenOutput path)" by auto
    then show False by simp
  qed
qed

lemma emits_trace:
  assumes "emits A p" and "p w = (r, w1)"
  obtains t where "trace w1 = trace w @ t" and "set t \<subseteq> A"
  using assms unfolding emits_def by (metis snd_conv)

lemma oac_trace:
  assumes "opens_after_capture E steps p" and "p w = (r, w1)"
  obtains t where "trace w1 = trace w @ t"
    and "(\<exists>path. OpenOutput path \<in> set t) \<longrightarrow> screenshots t = images E steps \<and> steps \<noteq> []"
  using assms unfolding opens_after_capture_def by (metis snd_conv)

lemma oacI:
  assumes "\<And>w. \<exists>t. trace (snd (p w)) = trace w @ t
        \<and> ((\<exists>path. OpenOutput path \<in> set t) \<longrightarrow> screenshots t = images E steps \<and> steps \<noteq> [])"
  shows "opens_after_capture E steps p"
  using assms unfolding opens_after_capture_def by blast

lemma oac_quiet:
  assumes "emits (Collect is_quiet) p"
  shows "opens_after_capture E steps p"
proof (rule oacI)
  fix w
  obtain r w1 where pw: "p w = (r, w1)" by (cases "p w")
  from assms pw obtain t where t: "trace w1 = trace w @ t" "set t \<subseteq> Collect is_quiet"
    by (rule emits_trace)
  show "\<exists>t. trace (snd (p w)) = trace w @ t
        \<and> ((\<exists>path. OpenOutput path \<in> set t) \<longrightarrow> screenshots t = images E steps \<and> steps \<noteq> [])"
    using pw t(1) quiet_trace(2) [OF t(2)] by (intro exI [of _ t]) simp
qed

lemma oac_seq:
  assumes "emits (Collect is_quiet) p" and "\<And>x. opens_after_capture E steps (f x)"
  shows "opens_after_capture E steps (seq p f)"
proof (rule oacI)
  fix w
  obtain r w1 where pw: "p w = (r, w1)" by (cases "p w")
  from assms(1) pw obtain t1 where t1: "trace w1 = trace w @ t1" "set t1 \<subseteq> Collect is_quiet"
    by (rule emits_trace)
  show "\<exists>t. trace (snd (seq p f w)) = trace w @ t
        \<and> ((\<exists>path. OpenOutput path \<in> set t) \<longrightarrow> screenshots t = images E steps \<and> steps \<noteq> [])"
  proof (cases r)
    case (Inl e)
    then show ?thesis
      using pw t1(1) quiet_trace(2) [OF t1(2)] by (intro exI [of _ t1]) (simp add: seq_def)
  next
    case (Inr x)
    obtain r2 w2 where fw: "f x w1 = (r2, w2)" by (cases "f x w1")
    from assms(2) [of x] fw obtain t2 where t2: "trace w2 = trace w1 @ t2"
      "(\<exists>path. OpenOutput path \<in> set t2) \<longrightarrow> screenshots t2 = images E steps \<and> steps \<noteq> []"
      by (rule oac_trace)
    have "snd (seq p f w) = w2" using pw Inr fw by (simp add: seq_def)
    then show ?thesis
      using t1(1) t2 quiet_trace [OF t1(2)]
      by (intro exI [of _ "t1 @ t2"]) (auto simp: screenshots_append)
  qed
qed

lemma oac_try_finally:
  assumes "opens_after_capture E steps p" and "emits (Collect is_quiet) q"
  shows "opens_after_capture E steps (try_finally p q)"
proof (rule oacI)
  fix w
  obtain r w1 where pw: "p w = (r, w1)" by (cases "p w")
  obtain r2 w2 where qw: "q w1 = (r2, w2)" by (cases "q w1")
  from assms(1) pw obtain t1 where t1: "trace w1 = trace w @ t1"
    "(\<exists>path. OpenOutput path \<in> set t1) \<longrightarrow> screenshots t1 = images E steps \<and> steps \<noteq> []"
    by (rule oac_trace)
  from assms(2) qw obtain t2 where t2: "trace w2 = trace w1 @ t2" "set t2 \<subseteq> Collect is_quiet"
    by (rule emits_trace)
  have "snd (try_finally p q w) = w2"
    using pw qw by (simp add: try_finally_def split: sum.splits)
  then show "\<exists>t. trace (snd (try_finally p q w)) = trace w @ t
        \<and> ((\<exists>path. OpenOutput path \<in> set t) \<longrightarrow> screenshots t = images E steps \<and> steps \<noteq> [])"
    using t1 t2(1) quiet_trace [OF t2(2)]
    by (intro exI [of _ "t1 @ t2"]) (auto simp: screenshots_append)
qed


lemma capture_loop_returns:
  assumes "capture_loop E url cb n ps imgs w = (Inr imgs', w1)"
  shows "imgs' = imgs @ map (\<lambda>(idx, h). img_path E (idx + 1)) ps"
    and "trace w1 = trace w @ concat (map (step_actions E url cb n) ps)"
proof -
  from assms have "capture_loop (no_faults E) url cb n ps imgs w = (Inr imgs', w1)"
    using succ_stable_capture_loop [of E url cb n ps imgs] unfolding succ_stable_def by blast
  moreover have "step_actions (no_faults E) = step_actions E"
    by (simp add: step_actions_def fun_eq_iff)
  ultimately have "(Inr imgs', w1) =
      (Inr (imgs @ map (\<lambda>(idx, h). img_path E (idx + 1)) ps),
       w\<lparr>trace := trace w @ concat (map (step_actions E url cb n) ps)\<rparr>)"
    using capture_loop_ok [of "no_faults E" url cb n ps imgs w] by simp
  then show "imgs' = imgs @ map (\<lambda>(idx, h). img_path E (idx + 1)) ps"
    and "trace w1 = trace w @ concat (map (step_actions E url cb n) ps)"
    by simp_all
qed

lemma step_acts_no_open:
  assumes "set t \<subseteq> Collect is_step_act"
  shows "OpenOutput path \<notin> set t"
proof
  assume "OpenOutput path \<in> set t"
  with assms have "is_step_act (OpenOutput path)" by auto
  then show False by simp
qed

lemma emits_assemble:
  "emits {a. \<not> is_screenshot a}
     (seq (report E cb n n GenerandoPDF) (\<lambda>u.
        if imgs = [] then raise RuntimeError else write_pdf E out imgs))"
  by (intro emits_seq emits_report) (simp_all add: emits_raise emits_write_pdf)

lemma emits_no_assemble:
  "emits (Collect is_quiet)
     (seq (report E cb n n GenerandoPDF) (\<lambda>u.
        if [] = ([]::string list) then raise RuntimeError else write_pdf E out []))"
  by (intro emits_seq emits_report) (simp_all add: emits_raise)

lemma oac_capture:
  "opens_after_capture E steps
     (seq (capture_loop E url cb n (enumerate 0 steps) []) (\<lambda>image_files.
      seq (report E cb n n GenerandoPDF) (\<lambda>u.
        if image_files = [] then raise RuntimeError else write_pdf E out image_files)))"
  (is "opens_after_capture E steps (seq ?loop ?rest)")
proof (rule oacI)
  fix w
  obtain r w1 where lw: "?loop w = (r, w1)" by (cases "?loop w")
  show "\<exists>t. trace (snd (seq ?loop ?rest w)) = trace w @ t
        \<and> ((\<exists>path. OpenOutput path \<in> set t) \<longrightarrow> screenshots t = images E steps \<and> steps \<noteq> [])"
  proof (cases r)
    case (Inl e)
    from emits_capture_loop lw obtain t where t: "trace w1 = trace w @ t"
      "set t \<subseteq> Collect is_step_act"
      by (rule emits_trace)
    show ?thesis
      using lw Inl t(1) step_acts_no_open [OF t(2)] by (intro exI [of _ t]) (simp add: seq_def)
  next
    case (Inr imgs)
    from capture_loop_returns [OF lw [unfolded Inr]]
    have imgs: "imgs = images E steps"
      and t1: "trace w1 = trace w @ concat (map (step_actions E url cb n) (enumerate 0 steps))"
      by (simp_all add: images_def)
    let ?t1 = "concat (map (step_actions E url cb n) (enumerate 0 steps))"
    obtain r2 w2 where rw: "?rest imgs w1 = (r2, w2)" by (cases "?rest imgs w1")
    have res: "snd (seq ?loop ?rest w) = w2" using lw Inr rw by (simp add: seq_def)
    show ?thesis
    proof (cases "steps = []")
      case True
      then have "imgs = []" using imgs by (simp add: images_def)
      with rw emits_no_assemble [of E cb n out] obtain t2 where t2: "trace w2 = trace w1 @ t2"
        "set t2 \<subseteq> Collect is_quiet"
        by (auto elim: emits_trace)
      show ?thesis
        using res t1 t2(1) True quiet_trace(2) [OF t2(2)]
        by (intro exI [of _ t2]) simp
    next
      case False
      from emits_assemble [of E cb n imgs out] rw obtain t2 where t2: "trace w2 = trace w1 @ t2"
        "set t2 \<subseteq> {a. \<not> is_screenshot a}"
        by (rule emits_trace)
      have "screenshots t2 = []" using t2(2) by (intro no_screenshots) auto
      then have "screenshots (?t1 @ t2) = images E steps"
        by (simp add: screenshots_append screenshots_steps images_def)
      then show ?thesis
        using res t1 t2(1) False by (intro exI [of _ "?t1 @ t2"]) simp
    qed
  qed
qed

lemma oac_capture_and_assemble:
  "opens_after_capture E steps (capture_and_assemble E url out cb steps)"
  unfolding capture_and_assemble_def Let_def
  by (intro oac_seq oac_try_finally oac_capture emits_perform) simp_all

lemma seq_return: "seq (seq p (\<lambda>u. return x)) f = seq p (\<lambda>u. f x)"
  by (auto simp: seq_def return_def fun_eq_iff split: prod.splits sum.splits)

lemma oac_try_block:
  "opens_after_capture E (generate_steps (analysis E)) (try_block E url out cb)"
proof -
  have body: "opens_after_capture E (generate_steps (analysis E))
     (case analysis E of
         Unknown \<Rightarrow> raise ValueError
       | Sozi width height frames \<Rightarrow>
           seq (perform E AddStyleTag) (\<lambda>u.
           seq (perform E (SetViewportSize width height)) (\<lambda>u.
           capture_and_assemble E url out cb (generate_steps (analysis E))))
       | JessyInk width height counts \<Rightarrow>
           seq (perform E (SetViewportSize width height)) (\<lambda>u.
           capture_and_assemble E url out cb (generate_steps (analysis E))))"
  proof (cases "analysis E")
    case (Sozi width height frames)
    have "opens_after_capture E (generate_steps (analysis E))
       (seq (perform E AddStyleTag) (\<lambda>u.
        seq (perform E (SetViewportSize width height)) (\<lambda>u.
        capture_and_assemble E url out cb (generate_steps (analysis E)))))"
      by (intro oac_seq emits_perform oac_capture_and_assemble) simp_all
    then show ?thesis by (simp only: Sozi info.case)
  next
    case (JessyInk width height counts)
    have "opens_after_capture E (generate_steps (analysis E))
       (seq (perform E (SetViewportSize width height)) (\<lambda>u.
        capture_and_assemble E url out cb (generate_steps (analysis E))))"
      by (intro oac_seq emits_perform oac_capture_and_assemble) simp_all
    then show ?thesis by (simp only: JessyInk info.case)
  next
    case Unknown
    show ?thesis by (simp only: Unknown info.case) (intro oac_quiet emits_raise)
  qed
  have eq: "try_block E url out cb =
     seq (report E cb 0 0 Cargando) (\<lambda>u.
     seq (perform E (Goto url)) (\<lambda>u.
     seq (perform E WaitForLoadState) (\<lambda>u.
     seq (perform E Evaluate) (\<lambda>u.
       case analysis E of
         Unknown \<Rightarrow> raise ValueError
       | Sozi width height frames \<Rightarrow>
           seq (perform E AddStyleTag) (\<lambda>u.
           seq (perform E (SetViewportSize width height)) (\<lambda>u.
           capture_and_assemble E url out cb (generate_steps (analysis E))))
       | JessyInk width height counts \<Rightarrow>
           seq (perform E (SetViewportSize width height)) (\<lambda>u.
           capture_and_assemble E url out cb (generate_steps (analysis E)))))))"
    unfolding try_block_def analyze_presentation_def seq_return ..
  show ?thesis
    unfolding eq
    by (intro oac_seq emits_report emits_perform body) simp_all
qed

lemma oac_convert:
  "opens_after_capture E (generate_steps (analysis E)) (convert_presentation E url out q cb)"
  unfolding convert_presentation_def
  by (intro oac_seq oac_try_finally oac_try_block emits_perform) simp_all

lemma emits_convert: "emits UNIV (convert_presentation E url out q cb)"
proof -
  have sub: "{a. \<not> is_session_act a} \<subseteq> UNIV" by simp
  show ?thesis
    unfolding convert_presentation_def
    by (intro emits_seq emits_try_finally emits_perform emits_mono [OF emits_try_block sub])
       simp_all
qed

text \<open>
  C4, amended. A run that returns leaves the complete document at the output location. A
  run that never attempts to open the output file leaves the location as it was; and the
  output file is opened only after every planned step has been captured, so every failure
  while loading, inspecting, navigating or capturing, and the failure on an empty plan,
  leaves the location unchanged.
\<close>

theorem output_touched_only_by_assembly:
  assumes run: "convert_presentation E file_url output_path quality cb w = (r, w')"
  shows "(r = Inr () \<longrightarrow>
            output_file w' = Some (pdf_bytes E (images E (generate_steps (analysis E)))))
    \<and> ((\<forall>path. OpenOutput path \<notin> set (new_actions w w')) \<longrightarrow> output_file w' = output_file w)
    \<and> ((\<exists>path. OpenOutput path \<in> set (new_actions w w')) \<longrightarrow>
          screenshots (new_actions w w') = images E (generate_steps (analysis E))
          \<and> generate_steps (analysis E) \<noteq> [])"
proof -
  have complete: "r = Inr () \<longrightarrow>
      output_file w' = Some (pdf_bytes E (images E (generate_steps (analysis E))))"
  proof
    assume "r = Inr ()"
    with run have "convert_presentation E file_url output_path quality cb w = (Inr (), w')"
      by simp
    from convert_success [OF this]
    show "output_file w' = Some (pdf_bytes E (images E (generate_steps (analysis E))))" by simp
  qed
  have unchanged: "(\<forall>path. OpenOutput path \<notin> set (new_actions w w')) \<longrightarrow>
      output_file w' = output_file w"
  proof
    assume no_open: "\<forall>path. OpenOutput path \<notin> set (new_actions w w')"
    from emits_convert [of E file_url output_path quality cb] run
    obtain t where "trace w' = trace w @ t"
      "output_file w' = output_file w \<or> (\<exists>path. OpenOutput path \<in> set t)"
      unfolding emits_def by (metis snd_conv)
    with no_open show "output_file w' = output_file w" by (simp add: new_actions_def)
  qed
  have late: "(\<exists>path. OpenOutput path \<in> set (new_actions w w')) \<longrightarrow>
      screenshots (new_actions w w') = images E (generate_steps (analysis E))
      \<and> generate_steps (analysis E) \<noteq> []"
  proof
    assume opened: "\<exists>path. OpenOutput path \<in> set (new_actions w w')"
    from oac_convert [of E file_url output_path quality cb] run
    obtain t where "trace w' = trace w @ t"
      "(\<exists>path. OpenOutput path \<in> set t) \<longrightarrow>
         screenshots t = images E (generate_steps (analysis E))
         \<and> generate_steps (analysis E) \<noteq> []"
      by (rule oac_trace)
    with opened show "screenshots (new_actions w w') = images E (generate_steps (analysis E))
        \<and> generate_steps (analysis E) \<noteq> []"
      by (simp add: new_actions_def)
  qed
  from complete unchanged late show ?thesis by blast
qed

text \<open>
  A run that returns writes the document; a run whose navigation to the first step raises
  leaves the output location as it was.
\<close>

theorem output_touched_only_by_assembly_witness:
  "fst (convert_presentation (demo_env (Sozi 1024 768 [''intro''])) ''file:///a.svg'' ''a.pdf'' 4 True w_init)
     = Inr ()
   \<and> output_file (snd (convert_presentation (demo_env (Sozi 1024 768 [''intro'']))
        ''file:///a.svg'' ''a.pdf'' 4 True w_init)) = Some [37, 80, 68, 70, 15]
   \<and> fst (convert_presentation capture_fail_env ''file:///a.svg'' ''a.pdf'' 4 True w_init)
     = Inl (Failure ''goto'')
   \<and> output_file (snd (convert_presentation capture_fail_env ''file:///a.svg'' ''a.pdf'' 4 True w_init))
     = output_file w_init"
proof -
  let ?E = "demo_env (Sozi 1024 768 [''intro''])"
  let ?ok = "convert_presentation ?E ''file:///a.svg'' ''a.pdf'' 4 True w_init"
  let ?bad = "convert_presentation capture_fail_env ''file:///a.svg'' ''a.pdf'' 4 True w_init"
  have ok: "fst ?ok = Inr ()" by (simp add: demo_run)
  have "images ?E (generate_steps (analysis ?E)) = [''/tmp/x/0001.png'']"
    by (simp add: images_def demo_img_path demo_env_fields)
  with output_touched_only_by_assembly [OF surjective_pairing, of ?E "''file:///a.svg''" "''a.pdf''"
      4 True w_init] ok
  have written: "output_file (snd ?ok) = Some [37, 80, 68, 70, 15]"
    by (simp add: demo_env_fields)
  have bad: "fst ?bad = Inl (Failure ''goto'')" by (simp add: capture_fail_run)
  have "\<forall>path. OpenOutput path \<notin> set (new_actions w_init (snd ?bad))"
    by (simp add: capture_fail_run new_actions_def) (simp add: w_init_def)
  with output_touched_only_by_assembly [OF surjective_pairing, of capture_fail_env
      "''file:///a.svg''" "''a.pdf''" 4 True w_init]
  have kept: "output_file (snd ?bad) = output_file w_init" by blast
  from ok written bad kept show ?thesis by simp
qed

subsection \<open>The rendering session\<close>

lemma emits_body:
  "emits {a. a \<noteq> PlaywrightStart \<and> a \<noteq> PlaywrightStop}
     (seq (perform E ChromiumLaunch) (\<lambda>u.
      seq (perform E (NewContext q)) (\<lambda>u.
      seq (perform E NewPage) (\<lambda>u.
        try_finally (try_block E url out cb) (perform E BrowserClose)))))"
proof -
  have sub: "{a. \<not> is_session_act a} \<subseteq> {a. a \<noteq> PlaywrightStart \<and> a \<noteq> PlaywrightStop}"
    by auto
  show ?thesis
    by (intro emits_seq emits_try_finally emits_perform emits_mono [OF emits_try_block sub])
       simp_all
qed

lemma perform_result:
  "perform E a w = (r, w') \<Longrightarrow>
     trace w' = trace w @ [a] \<and> (r = Inr () \<longleftrightarrow> raises E (length (trace w)) = None)"
  by (cases a) (auto simp: perform_def split: option.splits)

lemma perform_success:
  "raises E (length (trace w)) = None \<Longrightarrow>
     perform E a w = (Inr (), effect a (w\<lparr>trace := trace w @ [a]\<rparr>))"
  by (simp add: perform_def)

lemma perform_returns:
  assumes "raises E (length (trace w)) = None"
  obtains w1 where "perform E a w = (Inr (), w1)" and "trace w1 = trace w @ [a]"
    and "w1 = effect a (w\<lparr>trace := trace w @ [a]\<rparr>)"
  using assms perform_success [of E w a] by (cases a) simp_all

text \<open>
  C8. Once the Playwright driver has started, every run ends by stopping it, whether the
  body returned or raised and whatever raised: the stop is the last action, and nothing of the
  session is attempted after it. If the stop itself does not raise, neither the driver nor the
  browser is left running. Once the page has been created (the \<open>try\<close> has been entered),
  \<open>browser.close()\<close> is attempted after the last action of the body and before the
  driver stops; when creating the context or the page raises, the browser is ended by the
  stop of the driver that launched it.
\<close>

theorem session_released:
  assumes run: "convert_presentation E file_url output_path quality cb w = (r, w')"
    and started: "raises E (length (trace w)) = None"
  shows "(\<exists>t. new_actions w w' = PlaywrightStart # t @ [PlaywrightStop]
              \<and> PlaywrightStart \<notin> set t \<and> PlaywrightStop \<notin> set t)
    \<and> (raises E (length (trace w') - 1) = None \<longrightarrow> \<not> browser_open w' \<and> \<not> playwright_running w')
    \<and> (raises E (length (trace w) + 1) = None \<and> raises E (length (trace w) + 2) = None
         \<and> raises E (length (trace w) + 3) = None \<longrightarrow>
         (\<exists>t. new_actions w w' =
                [PlaywrightStart, ChromiumLaunch, NewContext quality, NewPage] @ t
                @ [BrowserClose, PlaywrightStop]
              \<and> (\<forall>a \<in> set t. \<not> is_session_act a)))"
proof -
  let ?body = "seq (perform E ChromiumLaunch) (\<lambda>u.
      seq (perform E (NewContext quality)) (\<lambda>u.
      seq (perform E NewPage) (\<lambda>u.
        try_finally (try_block E file_url output_path cb) (perform E BrowserClose))))"
  from started obtain w1 where w1: "perform E PlaywrightStart w = (Inr (), w1)"
    and tw1: "trace w1 = trace w @ [PlaywrightStart]"
    by (rule perform_returns)
  obtain rb wb where body: "?body w1 = (rb, wb)" by (cases "?body w1")
  obtain rs ws where stop: "perform E PlaywrightStop wb = (rs, ws)"
    by (cases "perform E PlaywrightStop wb")
  have res: "w' = ws"
    using run w1 body stop
    by (simp add: convert_presentation_def seq_def try_finally_def split: sum.splits)
  from emits_body [of E quality file_url output_path cb] body
  obtain t where t: "trace wb = trace w1 @ t"
    "set t \<subseteq> {a. a \<noteq> PlaywrightStart \<and> a \<noteq> PlaywrightStop}"
    unfolding emits_def by (metis snd_conv)
  have tws: "trace ws = trace wb @ [PlaywrightStop]"
    using perform_result [OF stop] by simp
  have full: "trace w' = trace w @ PlaywrightStart # t @ [PlaywrightStop]"
    using res t(1) tw1 tws by simp
  have c1: "\<exists>t. new_actions w w' = PlaywrightStart # t @ [PlaywrightStop]
              \<and> PlaywrightStart \<notin> set t \<and> PlaywrightStop \<notin> set t"
    using full t(2) by (intro exI [of _ t]) (auto simp: new_actions_def)
  have c2: "raises E (length (trace w') - 1) = None \<longrightarrow> \<not> browser_open w' \<and> \<not> playwright_running w'"
  proof
    assume "raises E (length (trace w') - 1) = None"
    then have "raises E (length (trace wb)) = None" using res tws by simp
    from perform_success [OF this, of PlaywrightStop] stop res
    show "\<not> browser_open w' \<and> \<not> playwright_running w'" by auto
  qed
  have c3: "raises E (length (trace w) + 1) = None \<and> raises E (length (trace w) + 2) = None
         \<and> raises E (length (trace w) + 3) = None \<longrightarrow>
         (\<exists>t. new_actions w w' =
                [PlaywrightStart, ChromiumLaunch, NewContext quality, NewPage] @ t
                @ [BrowserClose, PlaywrightStop]
              \<and> (\<forall>a \<in> set t. \<not> is_session_act a))"
  proof
    assume a: "raises E (length (trace w) + 1) = None \<and> raises E (length (trace w) + 2) = None
         \<and> raises E (length (trace w) + 3) = None"
    have "raises E (length (trace w1)) = None" using a tw1 by simp
    then obtain w2 where p2: "perform E ChromiumLaunch w1 = (Inr (), w2)"
      and tw2: "trace w2 = trace w1 @ [ChromiumLaunch]"
      by (rule perform_returns)
    have "raises E (length (trace w2)) = None" using a tw1 tw2 by simp
    then obtain w3 where p3: "perform E (NewContext quality) w2 = (Inr (), w3)"
      and tw3: "trace w3 = trace w2 @ [NewContext quality]"
      by (rule perform_returns)
    have "raises E (length (trace w3)) = None" using a tw1 tw2 tw3 by (simp add: numeral_3_eq_3)
    then obtain w4 where p4: "perform E NewPage w3 = (Inr (), w4)"
      and tw4: "trace w4 = trace w3 @ [NewPage]"
      by (rule perform_returns)
    obtain rt wt where tb: "try_block E file_url output_path cb w4 = (rt, wt)"
      by (cases "try_block E file_url output_path cb w4")
    obtain rc wc where cl: "perform E BrowserClose wt = (rc, wc)"
      by (cases "perform E BrowserClose wt")
    have "wb = wc"
      using body
      by (simp add: seq_def try_finally_def p2 p3 p4 tb cl split: sum.splits)
    moreover from emits_try_block [of E file_url output_path cb] tb
    obtain t' where t': "trace wt = trace w4 @ t'" "set t' \<subseteq> {a. \<not> is_session_act a}"
      unfolding emits_def by (metis snd_conv)
    moreover have "trace wc = trace wt @ [BrowserClose]"
      using perform_result [OF cl] by simp
    ultimately have "trace w' = trace w @ [PlaywrightStart, ChromiumLaunch, NewContext quality, NewPage]
        @ t' @ [BrowserClose, PlaywrightStop]"
      using res tws tw1 tw2 tw3 tw4 by simp
    then show "\<exists>t. new_actions w w' =
                [PlaywrightStart, ChromiumLaunch, NewContext quality, NewPage] @ t
                @ [BrowserClose, PlaywrightStop]
              \<and> (\<forall>a \<in> set t. \<not> is_session_act a)"
      using t'(2) by (intro exI [of _ t']) (auto simp: new_actions_def)
  qed
  from c1 c2 c3 show ?thesis by blast
qed

text \<open>
  The run in which the PDF library raises: the exception reaches the caller with the browser
  closed and the driver stopped.
\<close>

theorem session_released_witness:
  "raises faulty_env (length (trace w_init)) = None
   \<and> fst (convert_presentation faulty_env ''file:///a.svg'' ''a.pdf'' 4 True w_init)
       = Inl (Failure ''img2pdf'')
   \<and> \<not> browser_open (snd (convert_presentation faulty_env ''file:///a.svg'' ''a.pdf'' 4 True w_init))
   \<and> \<not> playwright_running (snd (convert_presentation faulty_env ''file:///a.svg'' ''a.pdf'' 4 True w_init))"
proof -
  let ?run = "convert_presentation faulty_env ''file:///a.svg'' ''a.pdf'' 4 True w_init"
  have started: "raises faulty_env (length (trace w_init)) = None"
    by (simp add: faulty_env_def w_init_def)
  have last_ok: "raises faulty_env (length (trace (snd ?run)) - 1) = None"
    by (simp add: faulty_run) (simp add: faulty_env_def)
  from session_released [OF surjective_pairing started] last_ok
  have "\<not> browser_open (snd ?run) \<and> \<not> playwright_running (snd ?run)" by blast
  moreover have "fst ?run = Inl (Failure ''img2pdf'')" by (simp add: faulty_run)
  ultimately show ?thesis using started by simp
qed


section \<open>The batch command line\<close>

















end
